theory Spec2Isabelle
  imports Main
begin

section \<open>Memory, element type and failures\<close>

text \<open>
  The model of \<^verbatim>\<open>src/vector.h\<close>. Raw buffers live in a heap indexed by their
  base address; a buffer is a list of slots, a slot being \<open>None\<close> (raw, unconstructed
  memory) or \<open>Some v\<close> (a live object of the element type \<open>T\<close> with value \<open>v\<close>).
  Address \<open>0\<close> is \<^verbatim>\<open>nullptr\<close>. A pointer to an element is the pair of a buffer's
  base address and an offset. A \<^verbatim>\<open>size_t\<close> that counts elements held in memory is
  modelled by \<open>nat\<close>: such a count never reaches the width of the type. The byte
  count of an allocation is computed as \<^verbatim>\<open>size_t\<close> does, see \<open>Allocate_on\<close>.
\<close>

type_synonym addr = nat

type_synonym ptr = "addr \<times> nat"

datatype error =
    ElementOperationFailure  \<comment> \<open>an exception thrown by an operation of \<open>T\<close>\<close>
  | AllocationFailure        \<comment> \<open>\<^verbatim>\<open>std::bad_alloc\<close> from \<^verbatim>\<open>operator new\<close>\<close>
  | AssertionFailure         \<comment> \<open>an \<^verbatim>\<open>assert\<close> of the source fails\<close>
  | UndefinedBehaviour       \<comment> \<open>an access outside an allocation or to a dead object\<close>

text \<open>What the operations of the element type do, one event each, in program order.\<close>

datatype event =
    Construct | ValueConstruct | CopyConstruct | MoveConstruct
  | CopyAssign | MoveAssign | Destroy

text \<open>
  The element type \<open>T\<close> as the container sees it: the two compile-time traits the
  source branches on, the state a moved-from object is left in, and the
  value-initialised object.
\<close>

record 'a T_traits =
  nothrow_move_constructible :: bool
  copy_constructible :: bool
  moved_from :: "'a \<Rightarrow> 'a"
  value_initialized :: 'a

record RawMemory =
  buffer_m :: addr
  capacity_m :: nat

record Vector =
  data_m :: RawMemory
  size_m :: nat

text \<open>
  The members \<^verbatim>\<open>buffer_\<close>, \<^verbatim>\<open>capacity_\<close>, \<^verbatim>\<open>data_\<close> and \<^verbatim>\<open>size_\<close> of the
  source are the fields \<open>buffer_m\<close>, \<open>capacity_m\<close>, \<open>data_m\<close> and \<open>size_m\<close>: a
  name cannot end with an underscore here.
\<close>

text \<open>
  The program state: the raw allocations, the \<^verbatim>\<open>Vector\<close> objects by their own
  address (what \<^verbatim>\<open>this\<close> and \<^verbatim>\<open>&rhs\<close> compare), the next fresh address of
  the allocator, the schedule of failures (the head says whether the next call that
  may throw does throw; when it is empty nothing throws any more) and the log of the
  element operations performed so far.
\<close>

record 'a state =
  heap :: "addr \<Rightarrow> 'a option list option"
  vectors :: "addr \<Rightarrow> Vector option"
  brk :: addr
  faults :: "bool list"
  log :: "event list"

type_synonym ('a, 'r) prog = "'a state \<Rightarrow> (error + 'r) \<times> 'a state"

definition ret :: "'r \<Rightarrow> ('a, 'r) prog" where
  "ret x s = (Inr x, s)"

definition raise :: "error \<Rightarrow> ('a, 'r) prog" where
  "raise e s = (Inl e, s)"

definition bindP :: "('a, 'r) prog \<Rightarrow> ('r \<Rightarrow> ('a, 'q) prog) \<Rightarrow> ('a, 'q) prog" where
  "bindP m f s = (case m s of (Inl e, s') \<Rightarrow> (Inl e, s') | (Inr x, s') \<Rightarrow> f x s')"

text \<open>Only C++ exceptions are caught by \<^verbatim>\<open>catch (...)\<close>.\<close>

definition is_exception :: "error \<Rightarrow> bool" where
  "is_exception e = (e = ElementOperationFailure \<or> e = AllocationFailure)"

definition try_catch :: "('a, 'r) prog \<Rightarrow> (error \<Rightarrow> ('a, 'r) prog) \<Rightarrow> ('a, 'r) prog" where
  "try_catch m h s =
     (case m s of
        (Inl e, s') \<Rightarrow> if is_exception e then h e s' else (Inl e, s')
      | (Inr x, s') \<Rightarrow> (Inr x, s'))"

definition assert :: "bool \<Rightarrow> ('a, unit) prog" where
  "assert b = (if b then ret () else raise AssertionFailure)"

text \<open>A call that may throw \<open>e\<close>: it throws when the schedule says so.\<close>

definition may_throw :: "error \<Rightarrow> ('a, unit) prog" where
  "may_throw e s =
     (case faults s of
        [] \<Rightarrow> (Inr (), s)
      | f # fs \<Rightarrow> (if f then Inl e else Inr (), s\<lparr>faults := fs\<rparr>))"

definition record_event :: "event \<Rightarrow> ('a, unit) prog" where
  "record_event ev s = (Inr (), s\<lparr>log := log s @ [ev]\<rparr>)"

definition ptr_add :: "ptr \<Rightarrow> nat \<Rightarrow> ptr" where
  "ptr_add p k = (fst p, snd p + k)"

text \<open>\<^verbatim>\<open>std::prev\<close>; at each use in the source the offset is at least one.\<close>

definition prev :: "ptr \<Rightarrow> ptr" where
  "prev p = (fst p, snd p - 1)"

definition read_slot :: "ptr \<Rightarrow> ('a, 'a) prog" where
  "read_slot p s =
     (case heap s (fst p) of
        None \<Rightarrow> (Inl UndefinedBehaviour, s)
      | Some xs \<Rightarrow>
          if snd p < length xs
          then (case xs ! snd p of
                  None \<Rightarrow> (Inl UndefinedBehaviour, s)
                | Some v \<Rightarrow> (Inr v, s))
          else (Inl UndefinedBehaviour, s))"

definition write_slot :: "ptr \<Rightarrow> 'a option \<Rightarrow> ('a, unit) prog" where
  "write_slot p x s =
     (case heap s (fst p) of
        None \<Rightarrow> (Inl UndefinedBehaviour, s)
      | Some xs \<Rightarrow>
          if snd p < length xs
          then (Inr (), s\<lparr>heap := (heap s)(fst p := Some (xs[snd p := x]))\<rparr>)
          else (Inl UndefinedBehaviour, s))"

subsection \<open>Operations of the element type\<close>

text \<open>\<^verbatim>\<open>new (p) T(std::forward<Args>(args)...)\<close>, the arguments yielding the value \<open>v\<close>.\<close>

definition construct_at :: "ptr \<Rightarrow> 'a \<Rightarrow> ('a, unit) prog" where
  "construct_at p v =
     bindP (may_throw ElementOperationFailure) (\<lambda>_.
     bindP (write_slot p (Some v)) (\<lambda>_.
     record_event Construct))"

text \<open>
  \<^verbatim>\<open>Emplace\<close> and \<^verbatim>\<open>EmplaceBack\<close> are templates over the arguments they forward to
  the constructor of \<open>T\<close>. The arguments select the constructor: any constructor
  (\<open>Args\<close>), the copy constructor when the one argument is a \<^verbatim>\<open>const T&\<close>
  (\<open>Copy\<close>), the move constructor when it is a \<^verbatim>\<open>T&&\<close> (\<open>Move\<close>). A move
  constructor that is \<^verbatim>\<open>noexcept\<close> does not throw.
\<close>

datatype ctor = Args | Copy | Move

definition construct_at_by :: "'a T_traits \<Rightarrow> ctor \<Rightarrow> ptr \<Rightarrow> 'a \<Rightarrow> ('a, unit) prog" where
  "construct_at_by T c p v =
     (case c of
        Args \<Rightarrow> construct_at p v
      | Copy \<Rightarrow>
          bindP (may_throw ElementOperationFailure) (\<lambda>_.
          bindP (write_slot p (Some v)) (\<lambda>_.
          record_event CopyConstruct))
      | Move \<Rightarrow>
          bindP (if nothrow_move_constructible T then ret ()
                 else may_throw ElementOperationFailure) (\<lambda>_.
          bindP (write_slot p (Some v)) (\<lambda>_.
          record_event MoveConstruct)))"

text \<open>
  \<^verbatim>\<open>auto new_value = T(std::forward<Args>(args)...)\<close>: the same constructor building
  a local object, which is not in the heap of the model.
\<close>

definition construct_local :: "'a T_traits \<Rightarrow> ctor \<Rightarrow> ('a, unit) prog" where
  "construct_local T c =
     (case c of
        Args \<Rightarrow>
          bindP (may_throw ElementOperationFailure) (\<lambda>_. record_event Construct)
      | Copy \<Rightarrow>
          bindP (may_throw ElementOperationFailure) (\<lambda>_. record_event CopyConstruct)
      | Move \<Rightarrow>
          bindP (if nothrow_move_constructible T then ret ()
                 else may_throw ElementOperationFailure) (\<lambda>_. record_event MoveConstruct))"

definition value_construct_at :: "'a T_traits \<Rightarrow> ptr \<Rightarrow> ('a, unit) prog" where
  "value_construct_at T p =
     bindP (may_throw ElementOperationFailure) (\<lambda>_.
     bindP (write_slot p (Some (value_initialized T))) (\<lambda>_.
     record_event ValueConstruct))"

definition copy_construct :: "ptr \<Rightarrow> ptr \<Rightarrow> ('a, unit) prog" where
  "copy_construct dst src =
     bindP (read_slot src) (\<lambda>v.
     bindP (may_throw ElementOperationFailure) (\<lambda>_.
     bindP (write_slot dst (Some v)) (\<lambda>_.
     record_event CopyConstruct)))"

definition move_construct :: "'a T_traits \<Rightarrow> ptr \<Rightarrow> ptr \<Rightarrow> ('a, unit) prog" where
  "move_construct T dst src =
     bindP (read_slot src) (\<lambda>v.
     bindP (if nothrow_move_constructible T then ret ()
            else may_throw ElementOperationFailure) (\<lambda>_.
     bindP (write_slot src (Some (moved_from T v))) (\<lambda>_.
     bindP (write_slot dst (Some v)) (\<lambda>_.
     record_event MoveConstruct))))"

definition T_copy_assign :: "ptr \<Rightarrow> ptr \<Rightarrow> ('a, unit) prog" where
  "T_copy_assign dst src =
     bindP (read_slot src) (\<lambda>v.
     bindP (read_slot dst) (\<lambda>_.
     bindP (may_throw ElementOperationFailure) (\<lambda>_.
     bindP (write_slot dst (Some v)) (\<lambda>_.
     record_event CopyAssign))))"

definition T_move_assign :: "'a T_traits \<Rightarrow> ptr \<Rightarrow> ptr \<Rightarrow> ('a, unit) prog" where
  "T_move_assign T dst src =
     bindP (read_slot src) (\<lambda>v.
     bindP (read_slot dst) (\<lambda>_.
     bindP (may_throw ElementOperationFailure) (\<lambda>_.
     bindP (write_slot src (Some (moved_from T v))) (\<lambda>_.
     bindP (write_slot dst (Some v)) (\<lambda>_.
     record_event MoveAssign)))))"

text \<open>\<^verbatim>\<open>*p = std::move(new_value)\<close> from a local object holding \<open>v\<close>.\<close>

definition T_move_assign_value :: "ptr \<Rightarrow> 'a \<Rightarrow> ('a, unit) prog" where
  "T_move_assign_value dst v =
     bindP (read_slot dst) (\<lambda>_.
     bindP (may_throw ElementOperationFailure) (\<lambda>_.
     bindP (write_slot dst (Some v)) (\<lambda>_.
     record_event MoveAssign)))"

definition destroy_at :: "ptr \<Rightarrow> ('a, unit) prog" where
  "destroy_at p =
     bindP (read_slot p) (\<lambda>_.
     bindP (write_slot p None) (\<lambda>_.
     record_event Destroy))"

subsection \<open>The algorithms of the standard library the source calls\<close>

primrec destroy_n :: "ptr \<Rightarrow> nat \<Rightarrow> ('a, unit) prog" where
  "destroy_n p 0 = ret ()"
| "destroy_n p (Suc n) = bindP (destroy_at p) (\<lambda>_. destroy_n (ptr_add p 1) n)"

text \<open>\<^verbatim>\<open>std::destroy(first, last)\<close>: the range must lie in one buffer.\<close>

definition destroy :: "ptr \<Rightarrow> ptr \<Rightarrow> ('a, unit) prog" where
  "destroy first lst =
     (if fst first = fst lst \<and> snd first \<le> snd lst
      then destroy_n first (snd lst - snd first)
      else raise UndefinedBehaviour)"

text \<open>
  The uninitialized algorithms construct \<open>m\<close> more objects, \<open>k\<close> being constructed
  already; when a construction throws they destroy the \<open>k\<close> objects constructed so
  far and rethrow.
\<close>

primrec uninitialized_loop ::
  "(nat \<Rightarrow> ('a, unit) prog) \<Rightarrow> ptr \<Rightarrow> nat \<Rightarrow> nat \<Rightarrow> ('a, unit) prog" where
  "uninitialized_loop step d_first k 0 = ret ()"
| "uninitialized_loop step d_first k (Suc m) =
     bindP (try_catch (step k) (\<lambda>e. bindP (destroy_n d_first k) (\<lambda>_. raise e))) (\<lambda>_.
     uninitialized_loop step d_first (Suc k) m)"

definition uninitialized_copy_n :: "ptr \<Rightarrow> nat \<Rightarrow> ptr \<Rightarrow> ('a, unit) prog" where
  "uninitialized_copy_n first n d_first =
     uninitialized_loop (\<lambda>k. copy_construct (ptr_add d_first k) (ptr_add first k)) d_first 0 n"

definition uninitialized_move_n :: "'a T_traits \<Rightarrow> ptr \<Rightarrow> nat \<Rightarrow> ptr \<Rightarrow> ('a, unit) prog" where
  "uninitialized_move_n T first n d_first =
     uninitialized_loop (\<lambda>k. move_construct T (ptr_add d_first k) (ptr_add first k)) d_first 0 n"

definition uninitialized_value_construct_n :: "'a T_traits \<Rightarrow> ptr \<Rightarrow> nat \<Rightarrow> ('a, unit) prog" where
  "uninitialized_value_construct_n T first n =
     uninitialized_loop (\<lambda>k. value_construct_at T (ptr_add first k)) first 0 n"

text \<open>\<^verbatim>\<open>std::copy\<close> and \<^verbatim>\<open>std::move\<close> assign front to back, \<open>n\<close> elements.\<close>

primrec copy_n_assign :: "ptr \<Rightarrow> nat \<Rightarrow> ptr \<Rightarrow> ('a, unit) prog" where
  "copy_n_assign first 0 d_first = ret ()"
| "copy_n_assign first (Suc n) d_first =
     bindP (T_copy_assign d_first first) (\<lambda>_.
     copy_n_assign (ptr_add first 1) n (ptr_add d_first 1))"

primrec move_n_assign :: "'a T_traits \<Rightarrow> ptr \<Rightarrow> nat \<Rightarrow> ptr \<Rightarrow> ('a, unit) prog" where
  "move_n_assign T first 0 d_first = ret ()"
| "move_n_assign T first (Suc n) d_first =
     bindP (T_move_assign T d_first first) (\<lambda>_.
     move_n_assign T (ptr_add first 1) n (ptr_add d_first 1))"

definition std_copy :: "ptr \<Rightarrow> ptr \<Rightarrow> ptr \<Rightarrow> ('a, unit) prog" where
  "std_copy first lst d_first =
     (if fst first = fst lst \<and> snd first \<le> snd lst
      then copy_n_assign first (snd lst - snd first) d_first
      else raise UndefinedBehaviour)"

definition std_move :: "'a T_traits \<Rightarrow> ptr \<Rightarrow> ptr \<Rightarrow> ptr \<Rightarrow> ('a, unit) prog" where
  "std_move T first lst d_first =
     (if fst first = fst lst \<and> snd first \<le> snd lst
      then move_n_assign T first (snd lst - snd first) d_first
      else raise UndefinedBehaviour)"

text \<open>
  \<^verbatim>\<open>std::move_backward(first, last, d_last)\<close> assigns back to front:
  \<^verbatim>\<open>while (first != last) *(--d_last) = std::move(*(--last));\<close>
\<close>

primrec move_backward_n :: "'a T_traits \<Rightarrow> ptr \<Rightarrow> nat \<Rightarrow> ptr \<Rightarrow> ('a, unit) prog" where
  "move_backward_n T first 0 d_first = ret ()"
| "move_backward_n T first (Suc n) d_first =
     bindP (T_move_assign T (ptr_add d_first n) (ptr_add first n)) (\<lambda>_.
     move_backward_n T first n d_first)"

definition move_backward :: "'a T_traits \<Rightarrow> ptr \<Rightarrow> ptr \<Rightarrow> ptr \<Rightarrow> ('a, unit) prog" where
  "move_backward T first lst d_last =
     (if fst first = fst lst \<and> snd first \<le> snd lst \<and> snd lst - snd first \<le> snd d_last
      then move_backward_n T first (snd lst - snd first)
             (fst d_last, snd d_last - (snd lst - snd first))
      else raise UndefinedBehaviour)"

section \<open>RawMemory\<close>

text \<open>
  \<^verbatim>\<open>Allocate(n)\<close> is \<^verbatim>\<open>operator new(n * sizeof(T))\<close>, or \<^verbatim>\<open>nullptr\<close> when
  \<open>n = 0\<close>. The byte count \<^verbatim>\<open>n * sizeof(T)\<close> is a \<^verbatim>\<open>size_t\<close> and wraps around, and
  the source does not check it: the allocation has room for as many objects as the
  wrapped byte count holds, which is \<open>n\<close> only when \<open>n * sizeof(T)\<close> is at most
  \<^verbatim>\<open>SIZE_MAX\<close>. A request of zero bytes succeeds and yields an allocation without
  room for any object.

  \<^verbatim>\<open>SIZE_MAX\<close> and \<^verbatim>\<open>sizeof(T)\<close> are fixed by the platform and the element type, not
  by the source; \<open>Size_t size_max sizeof_T\<close> is the arithmetic with these two
  values. \<open>Exact\<close> is the arithmetic of a request that cannot wrap around.
\<close>

datatype arithmetic = Exact | Size_t nat nat

primrec slots_obtained :: "arithmetic \<Rightarrow> nat \<Rightarrow> nat" where
  "slots_obtained Exact n = n"
| "slots_obtained (Size_t size_max sizeof_T) n = ((n * sizeof_T) mod (size_max + 1)) div sizeof_T"

text \<open>The allocator hands out the fresh address \<open>brk\<close>.\<close>

definition Allocate_on :: "arithmetic \<Rightarrow> nat \<Rightarrow> ('a, addr) prog" where
  "Allocate_on ar n =
     (if n \<noteq> 0
      then bindP (may_throw AllocationFailure) (\<lambda>_ s.
             (Inr (brk s),
              s\<lparr>heap := (heap s)(brk s := Some (replicate (slots_obtained ar n) None)),
                brk := Suc (brk s)\<rparr>))
      else ret 0)"

text \<open>
  \<^verbatim>\<open>EmplaceBack\<close>, \<^verbatim>\<open>Emplace\<close> and the copy constructor request room for the
  elements of a live vector, or for twice as many. The elements of a vector that is
  held in memory take a small part of the address space, so these requests do not
  wrap around: for them the model uses \<open>Exact\<close>. \<^verbatim>\<open>Reserve\<close>, \<^verbatim>\<open>Resize\<close> and the sized
  constructor pass on a count their caller chooses, which can be any \<^verbatim>\<open>size_t\<close>:
  they take the arithmetic as a parameter.
\<close>

definition Allocate :: "nat \<Rightarrow> ('a, addr) prog" where
  "Allocate n = Allocate_on Exact n"

text \<open>\<^verbatim>\<open>Deallocate(buf)\<close>: \<^verbatim>\<open>operator delete\<close>, which ignores \<^verbatim>\<open>nullptr\<close>.\<close>

definition Deallocate :: "addr \<Rightarrow> ('a, unit) prog" where
  "Deallocate buf s = (Inr (), if buf = 0 then s else s\<lparr>heap := (heap s)(buf := None)\<rparr>)"

text \<open>\<^verbatim>\<open>explicit RawMemory(size_t capacity)\<close>\<close>

definition RawMemory_ctor_on :: "arithmetic \<Rightarrow> nat \<Rightarrow> ('a, RawMemory) prog" where
  "RawMemory_ctor_on ar capacity =
     bindP (Allocate_on ar capacity) (\<lambda>b. ret \<lparr>buffer_m = b, capacity_m = capacity\<rparr>)"

definition RawMemory_ctor :: "nat \<Rightarrow> ('a, RawMemory) prog" where
  "RawMemory_ctor capacity = RawMemory_ctor_on Exact capacity"

text \<open>\<^verbatim>\<open>RawMemory() = default\<close>\<close>

definition RawMemory_default :: RawMemory where
  "RawMemory_default = \<lparr>buffer_m = 0, capacity_m = 0\<rparr>"

text \<open>\<^verbatim>\<open>T* operator+(size_t offset)\<close>\<close>

definition RawMemory_plus :: "RawMemory \<Rightarrow> nat \<Rightarrow> ('a, ptr) prog" where
  "RawMemory_plus m offset =
     bindP (assert (offset \<le> capacity_m m)) (\<lambda>_. ret (buffer_m m, offset))"

text \<open>\<^verbatim>\<open>T& operator[](size_t index)\<close>\<close>

definition RawMemory_index :: "RawMemory \<Rightarrow> nat \<Rightarrow> ('a, ptr) prog" where
  "RawMemory_index m index =
     bindP (assert (index < capacity_m m)) (\<lambda>_. ret (buffer_m m, index))"

definition GetAddress :: "RawMemory \<Rightarrow> ptr" where
  "GetAddress m = (buffer_m m, 0)"

text \<open>
  A local \<^verbatim>\<open>RawMemory<T> new_data(n)\<close> and its scope. The body returns its result
  and the storage \<open>new_data\<close> owns at the end (the old buffer, once
  \<^verbatim>\<open>data_.Swap(new_data)\<close> has run); the destructor deallocates it. When the body
  throws, \<open>new_data\<close> still owns the new buffer: in the source no call that may throw
  follows a \<^verbatim>\<open>Swap\<close>.
\<close>

definition with_RawMemory_on ::
  "arithmetic \<Rightarrow> nat \<Rightarrow> (RawMemory \<Rightarrow> ('a, 'r \<times> RawMemory) prog) \<Rightarrow> ('a, 'r) prog" where
  "with_RawMemory_on ar n body =
     bindP (RawMemory_ctor_on ar n) (\<lambda>new_data s.
       case body new_data s of
         (Inl e, s') \<Rightarrow>
           if is_exception e then bindP (Deallocate (buffer_m new_data)) (\<lambda>_. raise e) s'
           else (Inl e, s')
       | (Inr (r, owned), s') \<Rightarrow> bindP (Deallocate (buffer_m owned)) (\<lambda>_. ret r) s')"

definition with_RawMemory ::
  "nat \<Rightarrow> (RawMemory \<Rightarrow> ('a, 'r \<times> RawMemory) prog) \<Rightarrow> ('a, 'r) prog" where
  "with_RawMemory n body = with_RawMemory_on Exact n body"

section \<open>Vector\<close>

definition get_vector :: "addr \<Rightarrow> ('a, Vector) prog" where
  "get_vector this s =
     (case vectors s this of
        None \<Rightarrow> (Inl UndefinedBehaviour, s)
      | Some v \<Rightarrow> (Inr v, s))"

definition put_vector :: "addr \<Rightarrow> Vector \<Rightarrow> ('a, unit) prog" where
  "put_vector this v s = (Inr (), s\<lparr>vectors := (vectors s)(this := Some v)\<rparr>)"

definition set_size :: "addr \<Rightarrow> nat \<Rightarrow> ('a, unit) prog" where
  "set_size this n =
     bindP (get_vector this) (\<lambda>v. put_vector this (v\<lparr>size_m := n\<rparr>))"

definition begin_ptr :: "Vector \<Rightarrow> ptr" where
  "begin_ptr v = GetAddress (data_m v)"

definition end_ptr :: "Vector \<Rightarrow> ptr" where
  "end_ptr v = ptr_add (GetAddress (data_m v)) (size_m v)"

text \<open>\<^verbatim>\<open>Vector() = default\<close>\<close>

definition Vector_default :: Vector where
  "Vector_default = \<lparr>data_m = RawMemory_default, size_m = 0\<rparr>"

text \<open>
  The constructors build the members of the new object; the object exists (and is
  stored at its address by the caller) only when the constructor returns. When the
  body of a constructor throws, the member \<open>data_m\<close> is destroyed, which deallocates.
\<close>

definition Vector_sized :: "arithmetic \<Rightarrow> 'a T_traits \<Rightarrow> nat \<Rightarrow> ('a, Vector) prog" where
  "Vector_sized ar T n =
     bindP (RawMemory_ctor_on ar n) (\<lambda>d.
     bindP (try_catch (uninitialized_value_construct_n T (GetAddress d) n)
              (\<lambda>e. bindP (Deallocate (buffer_m d)) (\<lambda>_. raise e))) (\<lambda>_.
     ret \<lparr>data_m = d, size_m = n\<rparr>))"

definition Vector_copy :: "Vector \<Rightarrow> ('a, Vector) prog" where
  "Vector_copy other =
     bindP (RawMemory_ctor (size_m other)) (\<lambda>d.
     bindP (try_catch (uninitialized_copy_n (GetAddress (data_m other)) (size_m other) (GetAddress d))
              (\<lambda>e. bindP (Deallocate (buffer_m d)) (\<lambda>_. raise e))) (\<lambda>_.
     ret \<lparr>data_m = d, size_m = size_m other\<rparr>))"

text \<open>\<^verbatim>\<open>~Vector()\<close>, followed by the destructor of the member \<open>data_m\<close>.\<close>

definition Vector_dtor :: "Vector \<Rightarrow> ('a, unit) prog" where
  "Vector_dtor v =
     bindP (destroy_n (GetAddress (data_m v)) (size_m v)) (\<lambda>_.
     Deallocate (buffer_m (data_m v)))"

text \<open>
  \<^verbatim>\<open>void Swap(Vector& other) noexcept\<close>: \<^verbatim>\<open>data_.Swap(other.data_)\<close> exchanges
  the buffer pointers and the capacities, \<^verbatim>\<open>std::swap\<close> the sizes.
\<close>

definition Swap :: "addr \<Rightarrow> addr \<Rightarrow> ('a, unit) prog" where
  "Swap this other =
     bindP (get_vector this) (\<lambda>a.
     bindP (get_vector other) (\<lambda>b.
     bindP (put_vector this b) (\<lambda>_.
     put_vector other a)))"

text \<open>
  \<^verbatim>\<open>Vector(Vector&& other) noexcept\<close>: the new object at \<open>this\<close> starts with its
  default member initialisers, then swaps.
\<close>

definition Vector_move :: "addr \<Rightarrow> addr \<Rightarrow> ('a, unit) prog" where
  "Vector_move this other =
     bindP (put_vector this Vector_default) (\<lambda>_.
     Swap this other)"

text \<open>\<^verbatim>\<open>Vector(const Vector& other)\<close> for a new object at \<open>this\<close>.\<close>

definition Vector_copy_at :: "addr \<Rightarrow> addr \<Rightarrow> ('a, unit) prog" where
  "Vector_copy_at this other =
     bindP (get_vector other) (\<lambda>r.
     bindP (Vector_copy r) (\<lambda>v.
     put_vector this v))"

text \<open>
  \<^verbatim>\<open>Vector& operator=(const Vector& rhs)\<close>. The local \<^verbatim>\<open>Vector copy(rhs)\<close> is a
  value: after \<^verbatim>\<open>Swap(copy)\<close> it holds the former members of \<^verbatim>\<open>*this\<close>, and its
  destructor runs at the end of the block.
\<close>

definition Vector_copy_assign :: "addr \<Rightarrow> addr \<Rightarrow> ('a, addr) prog" where
  "Vector_copy_assign this rhs =
     (if this \<noteq> rhs then
        bindP (get_vector this) (\<lambda>v.
        bindP (get_vector rhs) (\<lambda>r.
        bindP (if size_m r > capacity_m (data_m v) then
                 bindP (Vector_copy r) (\<lambda>copy.
                 bindP (put_vector this copy) (\<lambda>_.
                 Vector_dtor v))
               else
                 bindP (if size_m r < size_m v then
                          bindP (std_copy (GetAddress (data_m r))
                                   (ptr_add (GetAddress (data_m r)) (size_m r))
                                   (GetAddress (data_m v))) (\<lambda>_.
                          destroy_n (ptr_add (GetAddress (data_m v)) (size_m r))
                            (size_m v - size_m r))
                        else
                          bindP (std_copy (GetAddress (data_m r))
                                   (ptr_add (GetAddress (data_m r)) (size_m v))
                                   (GetAddress (data_m v))) (\<lambda>_.
                          uninitialized_copy_n (ptr_add (GetAddress (data_m r)) (size_m v))
                            (size_m r - size_m v)
                            (ptr_add (GetAddress (data_m v)) (size_m v)))) (\<lambda>_.
                 set_size this (size_m r))) (\<lambda>_.
        ret this)))
      else ret this)"

text \<open>\<^verbatim>\<open>Vector& operator=(Vector&& rhs) noexcept\<close>\<close>

definition Vector_move_assign :: "addr \<Rightarrow> addr \<Rightarrow> ('a, addr) prog" where
  "Vector_move_assign this rhs =
     (if this \<noteq> rhs then bindP (Swap this rhs) (\<lambda>_. ret this) else ret this)"

definition Size :: "addr \<Rightarrow> ('a, nat) prog" where
  "Size this = bindP (get_vector this) (\<lambda>v. ret (size_m v))"

definition Capacity :: "addr \<Rightarrow> ('a, nat) prog" where
  "Capacity this = bindP (get_vector this) (\<lambda>v. ret (capacity_m (data_m v)))"

text \<open>\<^verbatim>\<open>T& Back()\<close>: \<^verbatim>\<open>size_ - 1\<close> wraps around when the vector is empty, and the
  assertion of \<^verbatim>\<open>RawMemory::operator[]\<close> then fails.\<close>

definition Back :: "addr \<Rightarrow> ('a, ptr) prog" where
  "Back this =
     bindP (get_vector this) (\<lambda>v.
     if size_m v = 0 then raise AssertionFailure
     else RawMemory_index (data_m v) (size_m v - 1))"

text \<open>
  \<^verbatim>\<open>void Reserve(size_t new_capacity)\<close>; \<open>ar\<close> is the arithmetic of the byte count of
  its allocation.
\<close>

definition Reserve :: "arithmetic \<Rightarrow> 'a T_traits \<Rightarrow> addr \<Rightarrow> nat \<Rightarrow> ('a, unit) prog" where
  "Reserve ar T this new_capacity =
     bindP (get_vector this) (\<lambda>v.
     if new_capacity \<le> capacity_m (data_m v) then ret ()
     else
       with_RawMemory_on ar new_capacity (\<lambda>new_data.
         bindP (if nothrow_move_constructible T \<or> \<not> copy_constructible T
                then uninitialized_move_n T (GetAddress (data_m v)) (size_m v) (GetAddress new_data)
                else uninitialized_copy_n (GetAddress (data_m v)) (size_m v) (GetAddress new_data)) (\<lambda>_.
         bindP (destroy_n (GetAddress (data_m v)) (size_m v)) (\<lambda>_.
         bindP (put_vector this (v\<lparr>data_m := new_data\<rparr>)) (\<lambda>_.
         ret ((), data_m v))))))"

text \<open>\<^verbatim>\<open>void Resize(size_t new_size)\<close>\<close>

definition Resize :: "arithmetic \<Rightarrow> 'a T_traits \<Rightarrow> addr \<Rightarrow> nat \<Rightarrow> ('a, unit) prog" where
  "Resize ar T this new_size =
     bindP (get_vector this) (\<lambda>v.
     if new_size < size_m v then
       bindP (destroy_n (ptr_add (GetAddress (data_m v)) new_size) (size_m v - new_size)) (\<lambda>_.
       set_size this new_size)
     else if new_size = size_m v then ret ()
     else if new_size \<le> capacity_m (data_m v) then
       bindP (uninitialized_value_construct_n T (ptr_add (GetAddress (data_m v)) (size_m v))
                (new_size - size_m v)) (\<lambda>_.
       set_size this new_size)
     else
       bindP (Reserve ar T this new_size) (\<lambda>_.
       bindP (get_vector this) (\<lambda>w.
       bindP (uninitialized_value_construct_n T (ptr_add (GetAddress (data_m w)) (size_m w))
                (new_size - size_m w)) (\<lambda>_.
       set_size this new_size))))"

text \<open>
  \<^verbatim>\<open>T& EmplaceBack(Args&&... args)\<close>; \<open>args\<close> is the value the constructor of \<open>T\<close>
  builds from the arguments and \<open>c\<close> the constructor they select.
\<close>

definition EmplaceBack_by :: "ctor \<Rightarrow> 'a T_traits \<Rightarrow> addr \<Rightarrow> 'a \<Rightarrow> ('a, ptr) prog" where
  "EmplaceBack_by c T this args =
     bindP (get_vector this) (\<lambda>v.
     if size_m v = capacity_m (data_m v) then
       with_RawMemory (if size_m v = 0 then 1 else size_m v * 2) (\<lambda>new_data.
         bindP (RawMemory_plus new_data (size_m v)) (\<lambda>p.
         bindP (construct_at_by T c p args) (\<lambda>_.
         bindP (if nothrow_move_constructible T \<or> \<not> copy_constructible T
                then uninitialized_move_n T (GetAddress (data_m v)) (size_m v) (GetAddress new_data)
                else uninitialized_copy_n (GetAddress (data_m v)) (size_m v) (GetAddress new_data)) (\<lambda>_.
         bindP (destroy_n (GetAddress (data_m v)) (size_m v)) (\<lambda>_.
         bindP (put_vector this (v\<lparr>data_m := new_data\<rparr>)) (\<lambda>_.
         bindP (set_size this (size_m v + 1)) (\<lambda>_.
         bindP (Back this) (\<lambda>r.
         ret (r, data_m v)))))))))
     else
       bindP (RawMemory_plus (data_m v) (size_m v)) (\<lambda>p.
       bindP (construct_at_by T c p args) (\<lambda>_.
       bindP (set_size this (size_m v + 1)) (\<lambda>_.
       Back this))))"

text \<open>\<^verbatim>\<open>EmplaceBack\<close> with arguments that select any constructor of \<open>T\<close>.\<close>

definition EmplaceBack :: "'a T_traits \<Rightarrow> addr \<Rightarrow> 'a \<Rightarrow> ('a, ptr) prog" where
  "EmplaceBack T this args = EmplaceBack_by Args T this args"

text \<open>
  \<^verbatim>\<open>void PushBack(Type&& value)\<close>, a template over the type of the value, forwards
  the value to \<^verbatim>\<open>EmplaceBack\<close>.
\<close>

definition PushBack :: "'a T_traits \<Rightarrow> addr \<Rightarrow> 'a \<Rightarrow> ('a, unit) prog" where
  "PushBack T this v = bindP (EmplaceBack T this v) (\<lambda>_. ret ())"

text \<open>
  The scope of a local object of type \<open>T\<close> (\<^verbatim>\<open>new_value\<close> in \<^verbatim>\<open>Emplace\<close>): its
  destructor runs when the scope is left, by a return or by an exception.
\<close>

definition with_local :: "('a, 'r) prog \<Rightarrow> ('a, 'r) prog" where
  "with_local body s =
     (case body s of
        (Inl e, s') \<Rightarrow>
          if is_exception e then bindP (record_event Destroy) (\<lambda>_. raise e) s'
          else (Inl e, s')
      | (Inr r, s') \<Rightarrow> bindP (record_event Destroy) (\<lambda>_. ret r) s')"

text \<open>
  \<^verbatim>\<open>iterator Emplace(const_iterator pos, Args&&... args)\<close>. In the reallocating
  branch each handler destroys and does not rethrow, so control goes on after it. In
  the last branch \<^verbatim>\<open>new_value\<close> is a local object built from the arguments. \<open>c\<close>
  is the constructor the arguments select.
\<close>

definition Emplace_by :: "ctor \<Rightarrow> 'a T_traits \<Rightarrow> addr \<Rightarrow> ptr \<Rightarrow> 'a \<Rightarrow> ('a, ptr) prog" where
  "Emplace_by c T this pos args =
     bindP (get_vector this) (\<lambda>v.
     bindP (assert (fst pos = fst (begin_ptr v) \<and> snd pos \<ge> snd (begin_ptr v)
                    \<and> snd pos \<le> snd (end_ptr v))) (\<lambda>_.
     let shift = snd pos - snd (begin_ptr v) in
     if size_m v = shift then
       bindP (EmplaceBack_by c T this args) (\<lambda>_.
       bindP (get_vector this) (\<lambda>w.
       ret (prev (end_ptr w))))
     else if size_m v = capacity_m (data_m v) then
       with_RawMemory (if size_m v = 0 then 1 else size_m v * 2) (\<lambda>new_data.
         bindP (RawMemory_plus new_data shift) (\<lambda>new_elem_it.
         bindP (construct_at_by T c new_elem_it args) (\<lambda>_.
         bindP (if nothrow_move_constructible T \<or> \<not> copy_constructible T then
                  bindP (try_catch
                           (uninitialized_move_n T (begin_ptr v) shift (GetAddress new_data))
                           (\<lambda>e. destroy_at new_elem_it)) (\<lambda>_.
                  try_catch
                    (uninitialized_move_n T (ptr_add (begin_ptr v) shift) (size_m v - shift)
                       (ptr_add (ptr_add (GetAddress new_data) shift) 1))
                    (\<lambda>e. destroy (begin_ptr v) (ptr_add (ptr_add (begin_ptr v) shift) 1)))
                else
                  bindP (try_catch
                           (uninitialized_copy_n (begin_ptr v) shift (GetAddress new_data))
                           (\<lambda>e. destroy_at new_elem_it)) (\<lambda>_.
                  try_catch
                    (uninitialized_copy_n (ptr_add (begin_ptr v) shift) (size_m v - shift)
                       (ptr_add (ptr_add (GetAddress new_data) shift) 1))
                    (\<lambda>e. destroy (begin_ptr v) (ptr_add (ptr_add (begin_ptr v) shift) 1)))) (\<lambda>_.
         bindP (destroy (begin_ptr v) (end_ptr v)) (\<lambda>_.
         bindP (put_vector this (v\<lparr>data_m := new_data\<rparr>)) (\<lambda>_.
         bindP (set_size this (size_m v + 1)) (\<lambda>_.
         ret (new_elem_it, data_m v))))))))
     else
       bindP (construct_local T c) (\<lambda>_.
       with_local (
         bindP (RawMemory_plus (data_m v) (size_m v)) (\<lambda>tail.
         bindP (move_construct T tail (prev (end_ptr v))) (\<lambda>_.
         bindP (try_catch (move_backward T pos (prev (end_ptr v)) (end_ptr v))
                  (\<lambda>e. bindP (destroy_n (end_ptr v) 1) (\<lambda>_. raise e))) (\<lambda>_.
         bindP (T_move_assign_value pos args) (\<lambda>_.
         bindP (set_size this (size_m v + 1)) (\<lambda>_.
         ret pos)))))))))"

text \<open>\<^verbatim>\<open>Emplace\<close> with arguments that select any constructor of \<open>T\<close>.\<close>

definition Emplace :: "'a T_traits \<Rightarrow> addr \<Rightarrow> ptr \<Rightarrow> 'a \<Rightarrow> ('a, ptr) prog" where
  "Emplace T this pos args = Emplace_by Args T this pos args"

text \<open>\<^verbatim>\<open>iterator Erase(const_iterator pos)\<close>\<close>

definition Erase :: "'a T_traits \<Rightarrow> addr \<Rightarrow> ptr \<Rightarrow> ('a, ptr) prog" where
  "Erase T this pos =
     bindP (get_vector this) (\<lambda>v.
     bindP (assert (fst pos = fst (begin_ptr v) \<and> snd pos \<ge> snd (begin_ptr v)
                    \<and> snd pos < snd (end_ptr v))) (\<lambda>_.
     let shift = snd pos - snd (begin_ptr v) in
     bindP (if nothrow_move_constructible T \<or> \<not> copy_constructible T
            then std_move T (ptr_add pos 1) (end_ptr v) pos
            else std_copy (ptr_add pos 1) (end_ptr v) pos) (\<lambda>_.
     bindP (destroy_at (prev (end_ptr v))) (\<lambda>_.
     bindP (set_size this (size_m v - 1)) (\<lambda>_.
     ret (ptr_add (begin_ptr v) shift))))))"

text \<open>
  \<^verbatim>\<open>iterator Insert(const_iterator pos, const T& value)\<close> forwards the value to
  \<^verbatim>\<open>Emplace\<close>, which builds the new element with the copy constructor.
\<close>

definition Insert :: "'a T_traits \<Rightarrow> addr \<Rightarrow> ptr \<Rightarrow> 'a \<Rightarrow> ('a, ptr) prog" where
  "Insert T this pos v = Emplace_by Copy T this pos v"

text \<open>
  \<^verbatim>\<open>iterator Insert(const_iterator pos, T&& value)\<close> forwards \<^verbatim>\<open>std::move(value)\<close>,
  and \<^verbatim>\<open>Emplace\<close> builds the new element with the move constructor.
\<close>

definition Insert_move :: "'a T_traits \<Rightarrow> addr \<Rightarrow> ptr \<Rightarrow> 'a \<Rightarrow> ('a, ptr) prog" where
  "Insert_move T this pos v = Emplace_by Move T this pos v"

text \<open>\<^verbatim>\<open>void PopBack()\<close>\<close>

definition PopBack :: "addr \<Rightarrow> ('a, unit) prog" where
  "PopBack this =
     bindP (get_vector this) (\<lambda>v.
     bindP (assert (size_m v > 0)) (\<lambda>_.
     bindP (destroy_at (ptr_add (GetAddress (data_m v)) (size_m v - 1))) (\<lambda>_.
     set_size this (size_m v - 1))))"

text \<open>\<^verbatim>\<open>T& operator[](size_t index) noexcept\<close>\<close>

definition Vector_index :: "addr \<Rightarrow> nat \<Rightarrow> ('a, ptr) prog" where
  "Vector_index this index =
     bindP (get_vector this) (\<lambda>v.
     bindP (assert (index < size_m v)) (\<lambda>_.
     RawMemory_index (data_m v) index))"

text \<open>A caller pushing the values \<open>vs\<close> one after the other.\<close>

primrec PushBack_all :: "'a T_traits \<Rightarrow> addr \<Rightarrow> 'a list \<Rightarrow> ('a, unit) prog" where
  "PushBack_all T this [] = ret ()"
| "PushBack_all T this (x # xs) = bindP (PushBack T this x) (\<lambda>_. PushBack_all T this xs)"

section \<open>The abstraction: the elements a vector holds\<close>

text \<open>
  The slots of a buffer of \<open>c\<close> slots whose first \<open>length xs\<close> slots hold the live
  objects \<open>xs\<close> and whose remaining slots are raw memory.
\<close>

definition slots :: "nat \<Rightarrow> 'a list \<Rightarrow> 'a option list" where
  "slots c xs = map Some xs @ replicate (c - length xs) None"

text \<open>
  The invariant of a \<^verbatim>\<open>Vector\<close> object \<open>v\<close> in a state \<open>s\<close>, together with its
  contents: \<open>size_m v\<close> is the number of elements \<open>xs\<close>, it is at most the capacity,
  \<^verbatim>\<open>nullptr\<close> is no allocation, the buffer is \<^verbatim>\<open>nullptr\<close> exactly when the
  capacity is zero and otherwise an allocation the allocator has handed out, whose slots \<open>[0, size)\<close> are the live
  objects \<open>xs\<close> and whose slots \<open>[size, capacity)\<close> are raw memory.
\<close>

definition holds :: "'a state \<Rightarrow> Vector \<Rightarrow> 'a list \<Rightarrow> bool" where
  "holds s v xs =
     (size_m v = length xs \<and> length xs \<le> capacity_m (data_m v) \<and>
      0 < brk s \<and> heap s 0 = None \<and>
      (if capacity_m (data_m v) = 0 then buffer_m (data_m v) = 0
       else 0 < buffer_m (data_m v) \<and> buffer_m (data_m v) < brk s \<and>
            heap s (buffer_m (data_m v)) = Some (slots (capacity_m (data_m v)) xs)))"

text \<open>The same invariant without naming the contents, and the contents read back.\<close>

definition live :: "'a option \<Rightarrow> bool" where
  "live x = (x \<noteq> None)"

definition Vector_invariant :: "'a state \<Rightarrow> Vector \<Rightarrow> bool" where
  "Vector_invariant s v =
     (size_m v \<le> capacity_m (data_m v) \<and> 0 < brk s \<and> heap s 0 = None \<and>
      (if capacity_m (data_m v) = 0 then buffer_m (data_m v) = 0
       else 0 < buffer_m (data_m v) \<and> buffer_m (data_m v) < brk s \<and>
            (case heap s (buffer_m (data_m v)) of
               None \<Rightarrow> False
             | Some ys \<Rightarrow> length ys = capacity_m (data_m v) \<and>
                          list_all live (take (size_m v) ys) \<and>
                          list_all (\<lambda>y. \<not> live y) (drop (size_m v) ys))))"

definition elements :: "'a state \<Rightarrow> Vector \<Rightarrow> 'a list" where
  "elements s v =
     (case heap s (buffer_m (data_m v)) of
        None \<Rightarrow> []
      | Some ys \<Rightarrow> map the (take (size_m v) ys))"

text \<open>
  How the reallocating operations migrate the old elements: they move them when \<open>T\<close>
  has a non-throwing move constructor or cannot be copied, and copy them otherwise.
\<close>

definition moves :: "'a T_traits \<Rightarrow> bool" where
  "moves T = (nothrow_move_constructible T \<or> \<not> copy_constructible T)"

definition migration :: "'a T_traits \<Rightarrow> event" where
  "migration T = (if moves T then MoveConstruct else CopyConstruct)"

text \<open>How \<^verbatim>\<open>Erase\<close> shifts the elements after the erased one: by the same trait.\<close>

definition shifting :: "'a T_traits \<Rightarrow> event" where
  "shifting T = (if moves T then MoveAssign else CopyAssign)"

section \<open>Concrete element types and states\<close>

text \<open>
  An element type that is copied on reallocation (its move constructor may throw)
  and one that is moved; their values are numbers and a moved-from object holds \<open>0\<close>.
\<close>

definition T_copied :: "nat T_traits" where
  "T_copied = \<lparr>nothrow_move_constructible = False, copy_constructible = True,
                moved_from = (\<lambda>_. 0), value_initialized = 0\<rparr>"

definition T_moved :: "nat T_traits" where
  "T_moved = \<lparr>nothrow_move_constructible = True, copy_constructible = True,
               moved_from = (\<lambda>_. 0), value_initialized = 0\<rparr>"

text \<open>The vector \<open>[10, 20]\<close> of capacity \<open>2\<close> at address \<open>7\<close>, in which nothing fails.\<close>

definition full_vector :: Vector where
  "full_vector = \<lparr>data_m = \<lparr>buffer_m = 1, capacity_m = 2\<rparr>, size_m = 2\<rparr>"

definition full_state :: "nat state" where
  "full_state =
     \<lparr>heap = (\<lambda>_. None)(1 := Some [Some 10, Some 20]),
      vectors = (\<lambda>_. None)(7 := Some full_vector),
      brk = 2, faults = [], log = []\<rparr>"

text \<open>
  The same state with a schedule of failures: the allocation and the construction of
  the new element succeed, the first copy of an old element throws.
\<close>

definition first_copy_fails :: "nat state" where
  "first_copy_fails = full_state\<lparr>faults := [False, False, True]\<rparr>"

text \<open>
  The vector \<open>[1, 2, 3]\<close> of capacity \<open>3\<close> at address \<open>7\<close>, with the same schedule.
\<close>

definition three_vector :: Vector where
  "three_vector = \<lparr>data_m = \<lparr>buffer_m = 1, capacity_m = 3\<rparr>, size_m = 3\<rparr>"

definition three_state :: "nat state" where
  "three_state =
     \<lparr>heap = (\<lambda>_. None)(1 := Some [Some 1, Some 2, Some 3]),
      vectors = (\<lambda>_. None)(7 := Some three_vector),
      brk = 2, faults = [False, False, True], log = []\<rparr>"

text \<open>
  Two vectors: \<open>[10, 20]\<close> of capacity \<open>4\<close> at address \<open>7\<close> and \<open>[1, 2, 3]\<close> of
  capacity \<open>3\<close> at address \<open>8\<close>; nothing fails.
\<close>

definition roomy_vector :: Vector where
  "roomy_vector = \<lparr>data_m = \<lparr>buffer_m = 1, capacity_m = 4\<rparr>, size_m = 2\<rparr>"

definition other_vector :: Vector where
  "other_vector = \<lparr>data_m = \<lparr>buffer_m = 2, capacity_m = 3\<rparr>, size_m = 3\<rparr>"

definition two_vectors :: "nat state" where
  "two_vectors =
     \<lparr>heap = (\<lambda>_. None)(1 := Some [Some 10, Some 20, None, None],
                              2 := Some [Some 1, Some 2, Some 3]),
      vectors = (\<lambda>_. None)(7 := Some roomy_vector, 8 := Some other_vector),
      brk = 3, faults = [], log = []\<rparr>"

text \<open>A state with an empty, default-constructed vector at address \<open>7\<close>.\<close>

definition empty_state :: "nat state" where
  "empty_state =
     \<lparr>heap = (\<lambda>_. None), vectors = (\<lambda>_. None)(7 := Some Vector_default),
      brk = 1, faults = [], log = []\<rparr>"

text \<open>
  \<^verbatim>\<open>Vector<int>\<close> on a platform where \<^verbatim>\<open>size_t\<close> has 64 bits and
  \<^verbatim>\<open>sizeof(int)\<close> is \<open>4\<close>: an \<^verbatim>\<open>int\<close> is moved without throwing and a moved-from
  \<^verbatim>\<open>int\<close> keeps its value. The states hold an empty default-constructed vector, and
  the vector \<open>[10, 20]\<close> of capacity \<open>2\<close>, at address \<open>7\<close>; nothing fails.
\<close>

definition int_64 :: arithmetic where
  "int_64 = Size_t (2 ^ 64 - 1) 4"

definition T_int :: "int T_traits" where
  "T_int = \<lparr>nothrow_move_constructible = True, copy_constructible = True,
             moved_from = (\<lambda>v. v), value_initialized = 0\<rparr>"

definition int_empty_state :: "int state" where
  "int_empty_state =
     \<lparr>heap = (\<lambda>_. None), vectors = (\<lambda>_. None)(7 := Some Vector_default),
      brk = 1, faults = [], log = []\<rparr>"

definition int_full_state :: "int state" where
  "int_full_state =
     \<lparr>heap = (\<lambda>_. None)(1 := Some [Some 10, Some 20]),
      vectors = (\<lambda>_. None)(7 := Some full_vector),
      brk = 2, faults = [], log = []\<rparr>"

section \<open>The steps of a run in which nothing fails\<close>

lemma bindP_ret [simp]: "bindP (ret x) f = f x"
  by (rule ext) (simp add: bindP_def ret_def)

lemma bindP_assoc: "bindP (bindP m f) g = bindP m (\<lambda>x. bindP (f x) g)"
  by (rule ext) (simp add: bindP_def split: prod.splits sum.splits)

text \<open>
  The operations with the exact arithmetic, and with arguments that select any
  constructor, written out.
\<close>

lemma Allocate_unfold:
  "Allocate n =
     (if n \<noteq> 0
      then bindP (may_throw AllocationFailure) (\<lambda>_ s.
             (Inr (brk s), s\<lparr>heap := (heap s)(brk s := Some (replicate n None)),
                                brk := Suc (brk s)\<rparr>))
      else ret 0)"
  by (simp add: Allocate_def Allocate_on_def)

lemma RawMemory_ctor_unfold:
  "RawMemory_ctor capacity =
     bindP (Allocate capacity) (\<lambda>b. ret \<lparr>buffer_m = b, capacity_m = capacity\<rparr>)"
  by (simp add: RawMemory_ctor_def RawMemory_ctor_on_def Allocate_def)

lemma with_RawMemory_unfold:
  "with_RawMemory n body =
     bindP (RawMemory_ctor n) (\<lambda>new_data s.
       case body new_data s of
         (Inl e, s') \<Rightarrow>
           if is_exception e then bindP (Deallocate (buffer_m new_data)) (\<lambda>_. raise e) s'
           else (Inl e, s')
       | (Inr (r, owned), s') \<Rightarrow> bindP (Deallocate (buffer_m owned)) (\<lambda>_. ret r) s')"
  by (simp add: with_RawMemory_def with_RawMemory_on_def RawMemory_ctor_def)

lemma construct_at_by_Args [simp]: "construct_at_by T Args p v = construct_at p v"
  by (simp add: construct_at_by_def)

lemma EmplaceBack_unfold:
  "EmplaceBack T this args =
     bindP (get_vector this) (\<lambda>v.
     if size_m v = capacity_m (data_m v) then
       with_RawMemory (if size_m v = 0 then 1 else size_m v * 2) (\<lambda>new_data.
         bindP (RawMemory_plus new_data (size_m v)) (\<lambda>p.
         bindP (construct_at p args) (\<lambda>_.
         bindP (if nothrow_move_constructible T \<or> \<not> copy_constructible T
                then uninitialized_move_n T (GetAddress (data_m v)) (size_m v) (GetAddress new_data)
                else uninitialized_copy_n (GetAddress (data_m v)) (size_m v) (GetAddress new_data)) (\<lambda>_.
         bindP (destroy_n (GetAddress (data_m v)) (size_m v)) (\<lambda>_.
         bindP (put_vector this (v\<lparr>data_m := new_data\<rparr>)) (\<lambda>_.
         bindP (set_size this (size_m v + 1)) (\<lambda>_.
         bindP (Back this) (\<lambda>r.
         ret (r, data_m v)))))))))
     else
       bindP (RawMemory_plus (data_m v) (size_m v)) (\<lambda>p.
       bindP (construct_at p args) (\<lambda>_.
       bindP (set_size this (size_m v + 1)) (\<lambda>_.
       Back this))))"
  unfolding EmplaceBack_def EmplaceBack_by_def construct_at_by_Args ..

lemma Emplace_unfold:
  "Emplace T this pos args =
     bindP (get_vector this) (\<lambda>v.
     bindP (assert (fst pos = fst (begin_ptr v) \<and> snd pos \<ge> snd (begin_ptr v)
                    \<and> snd pos \<le> snd (end_ptr v))) (\<lambda>_.
     let shift = snd pos - snd (begin_ptr v) in
     if size_m v = shift then
       bindP (EmplaceBack T this args) (\<lambda>_.
       bindP (get_vector this) (\<lambda>w.
       ret (prev (end_ptr w))))
     else if size_m v = capacity_m (data_m v) then
       with_RawMemory (if size_m v = 0 then 1 else size_m v * 2) (\<lambda>new_data.
         bindP (RawMemory_plus new_data shift) (\<lambda>new_elem_it.
         bindP (construct_at new_elem_it args) (\<lambda>_.
         bindP (if nothrow_move_constructible T \<or> \<not> copy_constructible T then
                  bindP (try_catch
                           (uninitialized_move_n T (begin_ptr v) shift (GetAddress new_data))
                           (\<lambda>e. destroy_at new_elem_it)) (\<lambda>_.
                  try_catch
                    (uninitialized_move_n T (ptr_add (begin_ptr v) shift) (size_m v - shift)
                       (ptr_add (ptr_add (GetAddress new_data) shift) 1))
                    (\<lambda>e. destroy (begin_ptr v) (ptr_add (ptr_add (begin_ptr v) shift) 1)))
                else
                  bindP (try_catch
                           (uninitialized_copy_n (begin_ptr v) shift (GetAddress new_data))
                           (\<lambda>e. destroy_at new_elem_it)) (\<lambda>_.
                  try_catch
                    (uninitialized_copy_n (ptr_add (begin_ptr v) shift) (size_m v - shift)
                       (ptr_add (ptr_add (GetAddress new_data) shift) 1))
                    (\<lambda>e. destroy (begin_ptr v) (ptr_add (ptr_add (begin_ptr v) shift) 1)))) (\<lambda>_.
         bindP (destroy (begin_ptr v) (end_ptr v)) (\<lambda>_.
         bindP (put_vector this (v\<lparr>data_m := new_data\<rparr>)) (\<lambda>_.
         bindP (set_size this (size_m v + 1)) (\<lambda>_.
         ret (new_elem_it, data_m v))))))))
     else
       bindP (may_throw ElementOperationFailure) (\<lambda>_.
       bindP (record_event Construct) (\<lambda>_.
       with_local (
         bindP (RawMemory_plus (data_m v) (size_m v)) (\<lambda>tail.
         bindP (move_construct T tail (prev (end_ptr v))) (\<lambda>_.
         bindP (try_catch (move_backward T pos (prev (end_ptr v)) (end_ptr v))
                  (\<lambda>e. bindP (destroy_n (end_ptr v) 1) (\<lambda>_. raise e))) (\<lambda>_.
         bindP (T_move_assign_value pos args) (\<lambda>_.
         bindP (set_size this (size_m v + 1)) (\<lambda>_.
         ret pos))))))))))"
proof -
  have local: "bindP (construct_local T Args) f =
      bindP (may_throw ElementOperationFailure) (\<lambda>_. bindP (record_event Construct) f)"
    for f :: "unit \<Rightarrow> ('a, ptr) prog"
    by (simp add: construct_local_def bindP_assoc)
  show ?thesis
    by (simp only: Emplace_def Emplace_by_def EmplaceBack_def construct_at_by_Args local)
qed

lemma may_throw_none: "faults s = [] \<Longrightarrow> may_throw e s = (Inr (), s)"
  by (simp add: may_throw_def)

lemma read_slot_live:
  "heap s b = Some (pre @ Some v # rest) \<Longrightarrow> i = length pre \<Longrightarrow> read_slot (b, i) s = (Inr v, s)"
  by (simp add: read_slot_def)

lemma write_slot_at:
  "heap s b = Some (pre @ y # rest) \<Longrightarrow> i = length pre \<Longrightarrow>
   write_slot (b, i) x s = (Inr (), s\<lparr>heap := (heap s)(b := Some (pre @ x # rest))\<rparr>)"
  by (simp add: write_slot_def)

lemma construct_at_ok:
  "faults s = [] \<Longrightarrow> heap s b = Some (pre @ y # rest) \<Longrightarrow> i = length pre \<Longrightarrow>
   construct_at (b, i) v s =
     (Inr (), s\<lparr>heap := (heap s)(b := Some (pre @ Some v # rest)), log := log s @ [Construct]\<rparr>)"
  by (simp add: construct_at_def bindP_def may_throw_none write_slot_at record_event_def)

lemma value_construct_at_ok:
  "faults s = [] \<Longrightarrow> heap s b = Some (pre @ y # rest) \<Longrightarrow> i = length pre \<Longrightarrow>
   value_construct_at T (b, i) s =
     (Inr (), s\<lparr>heap := (heap s)(b := Some (pre @ Some (value_initialized T) # rest)),
                 log := log s @ [ValueConstruct]\<rparr>)"
  by (simp add: value_construct_at_def bindP_def may_throw_none write_slot_at record_event_def)

lemma copy_construct_ok:
  "faults s = [] \<Longrightarrow> sb \<noteq> db \<Longrightarrow> heap s sb = Some (spre @ Some v # srest) \<Longrightarrow> si = length spre \<Longrightarrow>
   heap s db = Some (pre @ y # rest) \<Longrightarrow> i = length pre \<Longrightarrow>
   copy_construct (db, i) (sb, si) s =
     (Inr (), s\<lparr>heap := (heap s)(db := Some (pre @ Some v # rest)), log := log s @ [CopyConstruct]\<rparr>)"
  by (simp add: copy_construct_def bindP_def read_slot_live may_throw_none write_slot_at record_event_def)

lemma move_construct_ok:
  "faults s = [] \<Longrightarrow> sb \<noteq> db \<Longrightarrow> heap s sb = Some (spre @ Some v # srest) \<Longrightarrow> si = length spre \<Longrightarrow>
   heap s db = Some (pre @ y # rest) \<Longrightarrow> i = length pre \<Longrightarrow>
   move_construct T (db, i) (sb, si) s =
     (Inr (), s\<lparr>heap := (heap s)(sb := Some (spre @ Some (moved_from T v) # srest),
                                     db := Some (pre @ Some v # rest)),
                 log := log s @ [MoveConstruct]\<rparr>)"
  by (simp add: move_construct_def bindP_def read_slot_live may_throw_none write_slot_at
      record_event_def ret_def)

lemma destroy_at_ok:
  "heap s b = Some (pre @ Some v # rest) \<Longrightarrow> i = length pre \<Longrightarrow>
   destroy_at (b, i) s =
     (Inr (), s\<lparr>heap := (heap s)(b := Some (pre @ None # rest)), log := log s @ [Destroy]\<rparr>)"
  by (simp add: destroy_at_def bindP_def read_slot_live write_slot_at record_event_def)

lemma destroy_n_ok:
  "heap s b = Some (pre @ map Some vs @ rest) \<Longrightarrow> i = length pre \<Longrightarrow>
   destroy_n (b, i) (length vs) s =
     (Inr (), s\<lparr>heap := (heap s)(b := Some (pre @ replicate (length vs) None @ rest)),
                 log := log s @ replicate (length vs) Destroy\<rparr>)"
proof (induction vs arbitrary: pre i s)
  case Nil
  then show ?case by (auto simp add: ret_def fun_eq_iff intro!: state.equality)
next
  case (Cons v vs)
  let ?s1 = "s\<lparr>heap := (heap s)(b := Some (pre @ None # map Some vs @ rest)), log := log s @ [Destroy]\<rparr>"
  have d: "destroy_at (b, i) s = (Inr (), ?s1)"
    using Cons.prems by (simp add: destroy_at_ok)
  have h1: "heap ?s1 b = Some ((pre @ [None]) @ map Some vs @ rest)" by simp
  have "destroy_n (b, Suc i) (length vs) ?s1 =
       (Inr (), ?s1\<lparr>heap := (heap ?s1)(b := Some ((pre @ [None]) @ replicate (length vs) None @ rest)),
                 log := log ?s1 @ replicate (length vs) Destroy\<rparr>)"
    by (rule Cons.IH [OF h1]) (simp add: Cons.prems)
  then show ?case
    by (auto simp add: bindP_def d ptr_add_def replicate_app_Cons_same fun_eq_iff intro!: state.equality)
qed


lemma uninitialized_copy_loop_ok:
  "faults s = [] \<Longrightarrow> sb \<noteq> db \<Longrightarrow>
   heap s sb = Some (spre @ map Some vs @ srest) \<Longrightarrow> si + k = length spre \<Longrightarrow>
   heap s db = Some (dpre @ dmid @ drest) \<Longrightarrow> di + k = length dpre \<Longrightarrow>
   length dmid = length vs \<Longrightarrow>
   uninitialized_loop (\<lambda>k. copy_construct (ptr_add (db, di) k) (ptr_add (sb, si) k))
     (db, di) k (length vs) s =
   (Inr (), s\<lparr>heap := (heap s)(db := Some (dpre @ map Some vs @ drest)),
               log := log s @ replicate (length vs) CopyConstruct\<rparr>)"
proof (induction vs arbitrary: k spre dpre dmid s)
  case Nil
  then show ?case by (auto simp add: ret_def fun_eq_iff intro!: state.equality)
next
  case (Cons v vs)
  then obtain y ys where dmid: "dmid = y # ys" by (cases dmid) auto
  let ?s1 = "s\<lparr>heap := (heap s)(db := Some (dpre @ Some v # ys @ drest)),
                log := log s @ [CopyConstruct]\<rparr>"
  have step: "copy_construct (ptr_add (db, di) k) (ptr_add (sb, si) k) s = (Inr (), ?s1)"
    using Cons.prems dmid by (simp add: ptr_add_def copy_construct_ok)
  have "uninitialized_loop (\<lambda>k. copy_construct (ptr_add (db, di) k) (ptr_add (sb, si) k))
          (db, di) (Suc k) (length vs) ?s1 =
        (Inr (), ?s1\<lparr>heap := (heap ?s1)(db := Some ((dpre @ [Some v]) @ map Some vs @ drest)),
                   log := log ?s1 @ replicate (length vs) CopyConstruct\<rparr>)"
    using Cons.prems dmid
    by (intro Cons.IH [where spre = "spre @ [Some v]" and dmid = ys]) auto
  then show ?case
    by (auto simp add: bindP_def try_catch_def step replicate_app_Cons_same fun_eq_iff
        intro!: state.equality)
qed

lemma uninitialized_copy_n_ok:
  "faults s = [] \<Longrightarrow> sb \<noteq> db \<Longrightarrow>
   heap s sb = Some (spre @ map Some vs @ srest) \<Longrightarrow> si = length spre \<Longrightarrow>
   heap s db = Some (dpre @ dmid @ drest) \<Longrightarrow> di = length dpre \<Longrightarrow>
   length dmid = length vs \<Longrightarrow> n = length vs \<Longrightarrow>
   uninitialized_copy_n (sb, si) n (db, di) s =
   (Inr (), s\<lparr>heap := (heap s)(db := Some (dpre @ map Some vs @ drest)),
               log := log s @ replicate (length vs) CopyConstruct\<rparr>)"
  unfolding uninitialized_copy_n_def
  using uninitialized_copy_loop_ok [of s sb db spre vs srest si 0 dpre dmid drest di]
  by simp

lemma uninitialized_move_loop_ok:
  "faults s = [] \<Longrightarrow> sb \<noteq> db \<Longrightarrow>
   heap s sb = Some (spre @ map Some vs @ srest) \<Longrightarrow> si + k = length spre \<Longrightarrow>
   heap s db = Some (dpre @ dmid @ drest) \<Longrightarrow> di + k = length dpre \<Longrightarrow>
   length dmid = length vs \<Longrightarrow>
   uninitialized_loop (\<lambda>k. move_construct T (ptr_add (db, di) k) (ptr_add (sb, si) k))
     (db, di) k (length vs) s =
   (Inr (), s\<lparr>heap := (heap s)(sb := Some (spre @ map Some (map (moved_from T) vs) @ srest),
                                   db := Some (dpre @ map Some vs @ drest)),
               log := log s @ replicate (length vs) MoveConstruct\<rparr>)"
proof (induction vs arbitrary: k spre dpre dmid s)
  case Nil
  then show ?case by (auto simp add: ret_def fun_eq_iff intro!: state.equality)
next
  case (Cons v vs)
  then obtain y ys where dmid: "dmid = y # ys" by (cases dmid) auto
  let ?s1 = "s\<lparr>heap := (heap s)(sb := Some (spre @ Some (moved_from T v) # map Some vs @ srest),
                                 db := Some (dpre @ Some v # ys @ drest)),
                log := log s @ [MoveConstruct]\<rparr>"
  have step: "move_construct T (ptr_add (db, di) k) (ptr_add (sb, si) k) s = (Inr (), ?s1)"
    using Cons.prems dmid by (simp add: ptr_add_def move_construct_ok)
  have "uninitialized_loop (\<lambda>k. move_construct T (ptr_add (db, di) k) (ptr_add (sb, si) k))
          (db, di) (Suc k) (length vs) ?s1 =
        (Inr (), ?s1\<lparr>heap := (heap ?s1)
                     (sb := Some ((spre @ [Some (moved_from T v)]) @ map Some (map (moved_from T) vs) @ srest),
                      db := Some ((dpre @ [Some v]) @ map Some vs @ drest)),
                   log := log ?s1 @ replicate (length vs) MoveConstruct\<rparr>)"
    using Cons.prems dmid
    by (intro Cons.IH [where dmid = ys]) auto
  then show ?case
    by (auto simp add: bindP_def try_catch_def step replicate_app_Cons_same fun_eq_iff
        intro!: state.equality)
qed

lemma uninitialized_move_n_ok:
  "faults s = [] \<Longrightarrow> sb \<noteq> db \<Longrightarrow>
   heap s sb = Some (spre @ map Some vs @ srest) \<Longrightarrow> si = length spre \<Longrightarrow>
   heap s db = Some (dpre @ dmid @ drest) \<Longrightarrow> di = length dpre \<Longrightarrow>
   length dmid = length vs \<Longrightarrow> n = length vs \<Longrightarrow>
   uninitialized_move_n T (sb, si) n (db, di) s =
   (Inr (), s\<lparr>heap := (heap s)(sb := Some (spre @ map Some (map (moved_from T) vs) @ srest),
                                   db := Some (dpre @ map Some vs @ drest)),
               log := log s @ replicate (length vs) MoveConstruct\<rparr>)"
  unfolding uninitialized_move_n_def
  using uninitialized_move_loop_ok [of s sb db spre vs srest si 0 dpre dmid drest di T]
  by simp

lemma uninitialized_value_loop_ok:
  "faults s = [] \<Longrightarrow>
   heap s db = Some (dpre @ dmid @ drest) \<Longrightarrow> di + k = length dpre \<Longrightarrow>
   uninitialized_loop (\<lambda>k. value_construct_at T (ptr_add (db, di) k)) (db, di) k (length dmid) s =
   (Inr (), s\<lparr>heap := (heap s)(db := Some (dpre @ replicate (length dmid) (Some (value_initialized T)) @ drest)),
               log := log s @ replicate (length dmid) ValueConstruct\<rparr>)"
proof (induction dmid arbitrary: k dpre s)
  case Nil
  then show ?case by (auto simp add: ret_def fun_eq_iff intro!: state.equality)
next
  case (Cons y ys)
  let ?v = "Some (value_initialized T)"
  let ?s1 = "s\<lparr>heap := (heap s)(db := Some (dpre @ ?v # ys @ drest)),
                log := log s @ [ValueConstruct]\<rparr>"
  have step: "value_construct_at T (ptr_add (db, di) k) s = (Inr (), ?s1)"
    using Cons.prems by (simp add: ptr_add_def value_construct_at_ok)
  have "uninitialized_loop (\<lambda>k. value_construct_at T (ptr_add (db, di) k)) (db, di) (Suc k) (length ys) ?s1 =
        (Inr (), ?s1\<lparr>heap := (heap ?s1)(db := Some ((dpre @ [?v]) @ replicate (length ys) ?v @ drest)),
                   log := log ?s1 @ replicate (length ys) ValueConstruct\<rparr>)"
    using Cons.prems
    by (intro Cons.IH) auto
  then show ?case
    by (auto simp add: bindP_def try_catch_def step replicate_app_Cons_same fun_eq_iff
        intro!: state.equality)
qed


lemma T_copy_assign_ok:
  "faults s = [] \<Longrightarrow> sb \<noteq> db \<Longrightarrow> heap s sb = Some (spre @ Some v # srest) \<Longrightarrow> si = length spre \<Longrightarrow>
   heap s db = Some (pre @ Some w # rest) \<Longrightarrow> i = length pre \<Longrightarrow>
   T_copy_assign (db, i) (sb, si) s =
     (Inr (), s\<lparr>heap := (heap s)(db := Some (pre @ Some v # rest)), log := log s @ [CopyAssign]\<rparr>)"
  by (simp add: T_copy_assign_def bindP_def read_slot_live may_throw_none write_slot_at record_event_def)

lemma T_copy_assign_down:
  "faults s = [] \<Longrightarrow> heap s b = Some (pre @ Some w # Some v # rest) \<Longrightarrow> i = length pre \<Longrightarrow>
   T_copy_assign (b, i) (b, Suc i) s =
     (Inr (), s\<lparr>heap := (heap s)(b := Some (pre @ Some v # Some v # rest)), log := log s @ [CopyAssign]\<rparr>)"
  by (simp add: T_copy_assign_def bindP_def read_slot_def may_throw_none write_slot_def
      record_event_def nth_append)

lemma T_move_assign_down:
  "faults s = [] \<Longrightarrow> heap s b = Some (pre @ Some w # Some v # rest) \<Longrightarrow> i = length pre \<Longrightarrow>
   T_move_assign T (b, i) (b, Suc i) s =
     (Inr (), s\<lparr>heap := (heap s)(b := Some (pre @ Some v # Some (moved_from T v) # rest)),
                 log := log s @ [MoveAssign]\<rparr>)"
  by (simp add: T_move_assign_def bindP_def read_slot_def may_throw_none write_slot_def
      record_event_def nth_append list_update_append)

lemma T_move_assign_up:
  "faults s = [] \<Longrightarrow> heap s b = Some (pre @ Some v # Some w # rest) \<Longrightarrow> i = length pre \<Longrightarrow>
   T_move_assign T (b, Suc i) (b, i) s =
     (Inr (), s\<lparr>heap := (heap s)(b := Some (pre @ Some (moved_from T v) # Some v # rest)),
                 log := log s @ [MoveAssign]\<rparr>)"
  by (simp add: T_move_assign_def bindP_def read_slot_def may_throw_none write_slot_def
      record_event_def nth_append list_update_append)

lemma move_construct_up:
  "faults s = [] \<Longrightarrow> heap s b = Some (pre @ Some v # y # rest) \<Longrightarrow> i = length pre \<Longrightarrow>
   move_construct T (b, Suc i) (b, i) s =
     (Inr (), s\<lparr>heap := (heap s)(b := Some (pre @ Some (moved_from T v) # Some v # rest)),
                 log := log s @ [MoveConstruct]\<rparr>)"
  by (simp add: move_construct_def bindP_def read_slot_def may_throw_none write_slot_def
      record_event_def nth_append list_update_append ret_def)

lemma T_move_assign_value_ok:
  "faults s = [] \<Longrightarrow> heap s b = Some (pre @ Some w # rest) \<Longrightarrow> i = length pre \<Longrightarrow>
   T_move_assign_value (b, i) v s =
     (Inr (), s\<lparr>heap := (heap s)(b := Some (pre @ Some v # rest)), log := log s @ [MoveAssign]\<rparr>)"
  by (simp add: T_move_assign_value_def bindP_def read_slot_live may_throw_none write_slot_at
      record_event_def)

text \<open>Element-wise copy assignment from another buffer.\<close>

lemma copy_n_assign_ok:
  "faults s = [] \<Longrightarrow> sb \<noteq> db \<Longrightarrow>
   heap s sb = Some (spre @ map Some vs @ srest) \<Longrightarrow> si = length spre \<Longrightarrow>
   heap s db = Some (dpre @ map Some ws @ drest) \<Longrightarrow> di = length dpre \<Longrightarrow>
   length ws = length vs \<Longrightarrow>
   copy_n_assign (sb, si) (length vs) (db, di) s =
   (Inr (), s\<lparr>heap := (heap s)(db := Some (dpre @ map Some vs @ drest)),
               log := log s @ replicate (length vs) CopyAssign\<rparr>)"
proof (induction vs arbitrary: si di spre dpre ws s)
  case Nil
  then show ?case by (auto simp add: ret_def fun_eq_iff intro!: state.equality)
next
  case (Cons v vs)
  then obtain w ws' where ws: "ws = w # ws'" by (cases ws) auto
  let ?s1 = "s\<lparr>heap := (heap s)(db := Some (dpre @ Some v # map Some ws' @ drest)),
                log := log s @ [CopyAssign]\<rparr>"
  have step: "T_copy_assign (db, di) (sb, si) s = (Inr (), ?s1)"
    using Cons.prems ws by (simp add: T_copy_assign_ok)
  have "copy_n_assign (sb, Suc si) (length vs) (db, Suc di) ?s1 =
        (Inr (), ?s1\<lparr>heap := (heap ?s1)(db := Some ((dpre @ [Some v]) @ map Some vs @ drest)),
                   log := log ?s1 @ replicate (length vs) CopyAssign\<rparr>)"
    using Cons.prems ws
    by (intro Cons.IH [where spre = "spre @ [Some v]" and ws = ws']) auto
  then show ?case
    by (auto simp add: bindP_def step ptr_add_def replicate_app_Cons_same fun_eq_iff
        intro!: state.equality)
qed

text \<open>Shifting down by one slot inside a buffer, as \<^verbatim>\<open>Erase\<close> does.\<close>

lemma copy_n_assign_down:
  "faults s = [] \<Longrightarrow> heap s b = Some (pre @ Some a # map Some ms @ rest) \<Longrightarrow> i = length pre \<Longrightarrow>
   copy_n_assign (b, Suc i) (length ms) (b, i) s =
   (Inr (), s\<lparr>heap := (heap s)(b := Some (pre @ map Some ms @ Some (last (a # ms)) # rest)),
               log := log s @ replicate (length ms) CopyAssign\<rparr>)"
proof (induction ms arbitrary: i pre a s)
  case Nil
  then show ?case by (auto simp add: ret_def fun_eq_iff intro!: state.equality)
next
  case (Cons m ms)
  let ?s1 = "s\<lparr>heap := (heap s)(b := Some (pre @ Some m # Some m # map Some ms @ rest)),
                log := log s @ [CopyAssign]\<rparr>"
  have step: "T_copy_assign (b, i) (b, Suc i) s = (Inr (), ?s1)"
    using Cons.prems by (simp add: T_copy_assign_down)
  have "copy_n_assign (b, Suc (Suc i)) (length ms) (b, Suc i) ?s1 =
        (Inr (), ?s1\<lparr>heap := (heap ?s1)(b := Some ((pre @ [Some m]) @ map Some ms @ Some (last (m # ms)) # rest)),
                   log := log ?s1 @ replicate (length ms) CopyAssign\<rparr>)"
    using Cons.prems
    by (intro Cons.IH) auto
  then show ?case
    by (auto simp add: bindP_def step ptr_add_def replicate_app_Cons_same fun_eq_iff
        intro!: state.equality)
qed

lemma move_n_assign_down:
  "faults s = [] \<Longrightarrow> heap s b = Some (pre @ Some a # map Some ms @ rest) \<Longrightarrow> i = length pre \<Longrightarrow>
   move_n_assign T (b, Suc i) (length ms) (b, i) s =
   (Inr (), s\<lparr>heap := (heap s)(b := Some (pre @ map Some ms @
                                   Some (if ms = [] then a else moved_from T (last ms)) # rest)),
               log := log s @ replicate (length ms) MoveAssign\<rparr>)"
proof (induction ms arbitrary: i pre a s)
  case Nil
  then show ?case by (auto simp add: ret_def fun_eq_iff intro!: state.equality)
next
  case (Cons m ms)
  let ?s1 = "s\<lparr>heap := (heap s)(b := Some (pre @ Some m # Some (moved_from T m) # map Some ms @ rest)),
                log := log s @ [MoveAssign]\<rparr>"
  have step: "T_move_assign T (b, i) (b, Suc i) s = (Inr (), ?s1)"
    using Cons.prems by (simp add: T_move_assign_down)
  have "move_n_assign T (b, Suc (Suc i)) (length ms) (b, Suc i) ?s1 =
        (Inr (), ?s1\<lparr>heap := (heap ?s1)(b := Some ((pre @ [Some m]) @ map Some ms @
                        Some (if ms = [] then moved_from T m else moved_from T (last ms)) # rest)),
                   log := log ?s1 @ replicate (length ms) MoveAssign\<rparr>)"
    using Cons.prems
    by (intro Cons.IH) auto
  then show ?case
    by (auto simp add: bindP_def step ptr_add_def replicate_app_Cons_same fun_eq_iff
        intro!: state.equality)
qed

text \<open>Shifting up by one slot inside a buffer, back to front, as \<^verbatim>\<open>Emplace\<close> does.\<close>

lemma move_backward_n_up:
  "faults s = [] \<Longrightarrow> heap s b = Some (pre @ map Some ms @ Some z # rest) \<Longrightarrow> i = length pre \<Longrightarrow>
   move_backward_n T (b, i) (length ms) (b, Suc i) s =
   (Inr (), s\<lparr>heap := (heap s)(b := Some (pre @
                 (if ms = [] then [Some z] else Some (moved_from T (hd ms)) # map Some ms) @ rest)),
               log := log s @ replicate (length ms) MoveAssign\<rparr>)"
proof (induction ms arbitrary: z rest s rule: rev_induct)
  case Nil
  then show ?case by (auto simp add: ret_def fun_eq_iff intro!: state.equality)
next
  case (snoc m ms)
  let ?s1 = "s\<lparr>heap := (heap s)(b := Some ((pre @ map Some ms) @ Some (moved_from T m) # Some m # rest)),
                log := log s @ [MoveAssign]\<rparr>"
  have step: "T_move_assign T (b, Suc (i + length ms)) (b, i + length ms) s = (Inr (), ?s1)"
    using snoc.prems by (intro T_move_assign_up) auto
  have "move_backward_n T (b, i) (length ms) (b, Suc i) ?s1 =
        (Inr (), ?s1\<lparr>heap := (heap ?s1)(b := Some (pre @
                 (if ms = [] then [Some (moved_from T m)] else Some (moved_from T (hd ms)) # map Some ms) @ Some m # rest)),
                   log := log ?s1 @ replicate (length ms) MoveAssign\<rparr>)"
    using snoc.prems
    by (intro snoc.IH) auto
  then show ?case
    by (auto simp add: bindP_def step ptr_add_def replicate_app_Cons_same fun_eq_iff
        intro!: state.equality)
qed

lemma get_vector_ok: "vectors s this = Some v \<Longrightarrow> get_vector this s = (Inr v, s)"
  by (simp add: get_vector_def)

lemma Allocate_ok:
  "faults s = [] \<Longrightarrow> n \<noteq> 0 \<Longrightarrow>
   Allocate n s = (Inr (brk s), s\<lparr>heap := (heap s)(brk s := Some (replicate n None)),
                                 brk := Suc (brk s)\<rparr>)"
  by (simp add: Allocate_unfold bindP_def may_throw_none)

lemma slots_obtained_fits:
  "0 < sizeof_T \<Longrightarrow> n * sizeof_T \<le> size_max \<Longrightarrow> slots_obtained (Size_t size_max sizeof_T) n = n"
  by simp

lemma Allocate_on_ok:
  "faults s = [] \<Longrightarrow> n \<noteq> 0 \<Longrightarrow> slots_obtained ar n = n \<Longrightarrow>
   Allocate_on ar n s = (Inr (brk s), s\<lparr>heap := (heap s)(brk s := Some (replicate n None)),
                                       brk := Suc (brk s)\<rparr>)"
  by (simp add: Allocate_on_def bindP_def may_throw_none)

lemma uninitialized_loop_numeral:
  "uninitialized_loop step d_first k (numeral n) =
     bindP (try_catch (step k) (\<lambda>e. bindP (destroy_n d_first k) (\<lambda>_. raise e))) (\<lambda>_.
     uninitialized_loop step d_first (Suc k) (pred_numeral n))"
  by (simp add: numeral_eq_Suc)

lemma uninitialized_copy_n_0 [simp]: "uninitialized_copy_n p 0 q = ret ()"
  by (simp add: uninitialized_copy_n_def)

lemma uninitialized_move_n_0 [simp]: "uninitialized_move_n T p 0 q = ret ()"
  by (simp add: uninitialized_move_n_def)

lemma uninitialized_value_construct_n_0 [simp]: "uninitialized_value_construct_n T p 0 = ret ()"
  by (simp add: uninitialized_value_construct_n_def)

lemma slots_full [simp]: "slots (length xs) xs = map Some xs"
  by (simp add: slots_def)

lemma slots_snoc:
  "length xs < c \<Longrightarrow> map Some xs @ Some x # replicate (c - Suc (length xs)) None = slots c (xs @ [x])"
  by (simp add: slots_def)

lemma slots_room:
  "length xs < c \<Longrightarrow> slots c xs = map Some xs @ None # replicate (c - Suc (length xs)) None"
  by (simp add: slots_def Suc_diff_Suc flip: replicate_Suc)

lemma EmplaceBack_in_capacity:
  assumes v: "vectors s this = Some v" and h: "holds s v xs" and f: "faults s = []"
    and room: "length xs < capacity_m (data_m v)"
  shows "EmplaceBack T this x s =
    (Inr (buffer_m (data_m v), length xs),
     s\<lparr>heap := (heap s)(buffer_m (data_m v) := Some (slots (capacity_m (data_m v)) (xs @ [x]))),
       log := log s @ [Construct],
       vectors := (vectors s)(this := Some (v\<lparr>size_m := Suc (length xs)\<rparr>))\<rparr>)"
proof -
  let ?b = "buffer_m (data_m v)" and ?c = "capacity_m (data_m v)"
  have sz: "size_m v = length xs" using h by (simp add: holds_def)
  have hb: "heap s ?b = Some (map Some xs @ None # replicate (?c - Suc (length xs)) None)"
    using h room by (simp add: holds_def slots_room)
  let ?s1 = "s\<lparr>heap := (heap s)(?b := Some (map Some xs @ Some x # replicate (?c - Suc (length xs)) None)),
                log := log s @ [Construct]\<rparr>"
  have c: "construct_at (?b, length xs) x s = (Inr (), ?s1)"
    using f hb by (simp add: construct_at_ok)
  show ?thesis
    using v room sz
    by (auto simp add: EmplaceBack_unfold bindP_def get_vector_ok RawMemory_plus_def assert_def ret_def c
        set_size_def put_vector_def Back_def RawMemory_index_def slots_snoc get_vector_def
        intro!: state.equality)
qed


lemma Deallocate_apply:
  "Deallocate b s = (Inr (), if b = 0 then s else s\<lparr>heap := (heap s)(b := None)\<rparr>)"
  by (simp add: Deallocate_def)

lemma replicate_split:
  "n < c \<Longrightarrow> replicate c None = replicate n None @ None # replicate (c - Suc n) None"
  by (metis Suc_diff_Suc replicate_Suc replicate_add add_diff_inverse_nat less_imp_le_nat
      not_less)

lemma EmplaceBack_reallocating:
  assumes v: "vectors s this = Some v" and h: "holds s v xs" and f: "faults s = []"
    and full: "length xs = capacity_m (data_m v)"
  shows "EmplaceBack T this x s =
    (Inr (brk s, length xs),
     s\<lparr>heap := (heap s)(brk s := Some (slots (max 1 (2 * length xs)) (xs @ [x])),
                         buffer_m (data_m v) := None),
       brk := Suc (brk s),
       log := log s @ Construct # replicate (length xs) (migration T) @ replicate (length xs) Destroy,
       vectors := (vectors s)(this := Some \<lparr>data_m = \<lparr>buffer_m = brk s,
                                 capacity_m = max 1 (2 * length xs)\<rparr>,
                               size_m = Suc (length xs)\<rparr>)\<rparr>)"
proof -
  let ?b = "buffer_m (data_m v)" and ?n = "length xs"
  let ?c = "if size_m v = 0 then 1 else size_m v * 2"
  have sz: "size_m v = ?n" and brk: "0 < brk s" and null: "heap s 0 = None"
    using h by (simp_all add: holds_def)
  have c: "?c = max 1 (2 * ?n)" "?n < ?c" "?c \<noteq> 0"
    using sz by (cases xs; simp)+
  let ?s1 = "s\<lparr>heap := (heap s)(brk s := Some (replicate ?c None)), brk := Suc (brk s)\<rparr>"
  have a: "Allocate ?c s = (Inr (brk s), ?s1)"
    using f c(3) by (rule Allocate_ok)
  let ?s2 = "?s1\<lparr>heap := (heap ?s1)(brk s := Some (replicate ?n None @ Some x # replicate (?c - Suc ?n) None)),
                log := log ?s1 @ [Construct]\<rparr>"
  have p: "construct_at (brk s, ?n) x ?s1 = (Inr (), ?s2)"
    using f replicate_split [OF c(2)]
    by (intro construct_at_ok [where y = None]) auto
  show ?thesis
  proof (cases "xs = []")
    case True
    then have b0: "?b = 0" using h full by (simp add: holds_def)
    show ?thesis
      using v sz True b0 brk null a p full
      by (auto simp add: EmplaceBack_unfold bindP_def get_vector_ok with_RawMemory_unfold
          RawMemory_ctor_unfold RawMemory_plus_def assert_def ret_def GetAddress_def
          set_size_def put_vector_def Back_def RawMemory_index_def get_vector_def
          Deallocate_apply slots_def fun_eq_iff
          intro!: state.equality)
  next
    case False
    then have cap: "capacity_m (data_m v) \<noteq> 0" using full by (cases xs) auto
    then have b: "0 < ?b" "?b < brk s" and hb: "heap s ?b = Some (map Some xs)"
      using h by (simp_all add: holds_def full [symmetric])
    let ?old = "if moves T then map Some (map (moved_from T) xs) else map Some xs"
    let ?s3 = "?s2\<lparr>heap := (heap ?s2)(?b := Some ?old,
                  brk s := Some (map Some xs @ Some x # replicate (?c - Suc ?n) None)),
                log := log ?s2 @ replicate ?n (migration T)\<rparr>"
    have mv: "uninitialized_move_n T (?b, 0) ?n (brk s, 0) ?s2 = (Inr (), ?s3)" if "moves T"
      using f b hb that
      by (subst uninitialized_move_n_ok [where spre = "[]" and vs = xs and srest = "[]"
            and dpre = "[]" and dmid = "replicate ?n None"
            and drest = "Some x # replicate (?c - Suc ?n) None"])
         (auto simp add: migration_def fun_eq_iff intro!: state.equality)
    have cp: "uninitialized_copy_n (?b, 0) ?n (brk s, 0) ?s2 = (Inr (), ?s3)" if "\<not> moves T"
      using f b hb that
      by (subst uninitialized_copy_n_ok [where spre = "[]" and vs = xs and srest = "[]"
            and dpre = "[]" and dmid = "replicate ?n None"
            and drest = "Some x # replicate (?c - Suc ?n) None"])
         (auto simp add: migration_def fun_eq_iff intro!: state.equality)
    let ?s4 = "?s3\<lparr>heap := (heap ?s3)(?b := Some (replicate ?n None)),
                log := log ?s3 @ replicate ?n Destroy\<rparr>"
    have d: "destroy_n (?b, 0) ?n ?s3 = (Inr (), ?s4)"
    proof (cases "moves T")
      case True
      then show ?thesis
        using b destroy_n_ok [where s = ?s3 and b = ?b and pre = "[]" and vs = "map (moved_from T) xs"
            and rest = "[]" and i = 0]
        by simp
    next
      case False
      then show ?thesis
        using b destroy_n_ok [where s = ?s3 and b = ?b and pre = "[]" and vs = xs
            and rest = "[]" and i = 0]
        by simp
    qed
    show ?thesis
    proof (cases "moves T")
      case True
      then have m: "nothrow_move_constructible T \<or> \<not> copy_constructible T"
        by (simp add: moves_def)
      show ?thesis
        using v sz False b c(1,2) a p mv [OF True] d m full
        by (auto simp add: EmplaceBack_unfold bindP_def get_vector_ok with_RawMemory_unfold
            RawMemory_ctor_unfold RawMemory_plus_def assert_def ret_def GetAddress_def
            set_size_def put_vector_def Back_def RawMemory_index_def get_vector_def
            Deallocate_apply slots_def fun_eq_iff
            intro!: state.equality)
    next
      case False
      then have m: "\<not> (nothrow_move_constructible T \<or> \<not> copy_constructible T)"
        by (simp add: moves_def)
      show ?thesis
        using v sz \<open>xs \<noteq> []\<close> b c(1,2) a p cp [OF False] d m full
        by (auto simp add: EmplaceBack_unfold bindP_def get_vector_ok with_RawMemory_unfold
            RawMemory_ctor_unfold RawMemory_plus_def assert_def ret_def GetAddress_def
            set_size_def put_vector_def Back_def RawMemory_index_def get_vector_def
            Deallocate_apply slots_def fun_eq_iff
            intro!: state.equality)
    qed
  qed
qed

lemma Reserve_noop:
  "vectors s this = Some v \<Longrightarrow> n \<le> capacity_m (data_m v) \<Longrightarrow> Reserve ar T this n s = (Inr (), s)"
  by (simp add: Reserve_def bindP_def get_vector_ok ret_def)

lemma Reserve_reallocating:
  assumes v: "vectors s this = Some v" and h: "holds s v xs" and f: "faults s = []"
    and grow: "capacity_m (data_m v) < n" and fits: "slots_obtained ar n = n"
  shows "Reserve ar T this n s =
    (Inr (),
     s\<lparr>heap := (heap s)(brk s := Some (slots n xs), buffer_m (data_m v) := None),
       brk := Suc (brk s),
       log := log s @ replicate (length xs) (migration T) @ replicate (length xs) Destroy,
       vectors := (vectors s)(this := Some \<lparr>data_m = \<lparr>buffer_m = brk s, capacity_m = n\<rparr>,
                               size_m = length xs\<rparr>)\<rparr>)"
proof -
  let ?b = "buffer_m (data_m v)" and ?k = "length xs" and ?c = "capacity_m (data_m v)"
  have sz: "size_m v = ?k" and brk: "0 < brk s" and null: "heap s 0 = None" and le: "?k \<le> ?c"
    using h by (simp_all add: holds_def)
  have n0: "n \<noteq> 0" using grow by simp
  let ?s1 = "s\<lparr>heap := (heap s)(brk s := Some (replicate n None)), brk := Suc (brk s)\<rparr>"
  have a: "Allocate_on ar n s = (Inr (brk s), ?s1)"
    using f n0 fits by (rule Allocate_on_ok)
  have rep: "replicate n None = replicate ?k (None :: 'a option) @ replicate (n - ?k) None"
    using le grow by (simp flip: replicate_add)
  show ?thesis
  proof (cases "?c = 0")
    case True
    then have b0: "?b = 0" and x0: "xs = []" using h by (simp_all add: holds_def)
    show ?thesis
      using v sz x0 b0 brk null a grow
      by (auto simp add: Reserve_def bindP_def get_vector_ok with_RawMemory_on_def
          RawMemory_ctor_on_def ret_def GetAddress_def put_vector_def
          Deallocate_apply slots_def fun_eq_iff
          intro!: state.equality)
  next
    case False
    then have b: "0 < ?b" "?b < brk s" and hb: "heap s ?b = Some (map Some xs @ replicate (?c - ?k) None)"
      using h by (simp_all add: holds_def slots_def)
    let ?old = "(if moves T then map Some (map (moved_from T) xs) else map Some xs) @ replicate (?c - ?k) None"
    let ?s3 = "?s1\<lparr>heap := (heap ?s1)(?b := Some ?old,
                  brk s := Some (map Some xs @ replicate (n - ?k) None)),
                log := log ?s1 @ replicate ?k (migration T)\<rparr>"
    have mv: "uninitialized_move_n T (?b, 0) ?k (brk s, 0) ?s1 = (Inr (), ?s3)" if "moves T"
      using f b hb that rep
      by (subst uninitialized_move_n_ok [where spre = "[]" and vs = xs
            and srest = "replicate (?c - ?k) None"
            and dpre = "[]" and dmid = "replicate ?k None"
            and drest = "replicate (n - ?k) None"])
         (auto simp add: migration_def fun_eq_iff intro!: state.equality)
    have cp: "uninitialized_copy_n (?b, 0) ?k (brk s, 0) ?s1 = (Inr (), ?s3)" if "\<not> moves T"
      using f b hb that rep
      by (subst uninitialized_copy_n_ok [where spre = "[]" and vs = xs
            and srest = "replicate (?c - ?k) None"
            and dpre = "[]" and dmid = "replicate ?k None"
            and drest = "replicate (n - ?k) None"])
         (auto simp add: migration_def fun_eq_iff intro!: state.equality)
    let ?s4 = "?s3\<lparr>heap := (heap ?s3)(?b := Some (replicate ?k None @ replicate (?c - ?k) None)),
                log := log ?s3 @ replicate ?k Destroy\<rparr>"
    have d: "destroy_n (?b, 0) ?k ?s3 = (Inr (), ?s4)"
    proof (cases "moves T")
      case True
      then show ?thesis
        using b destroy_n_ok [where s = ?s3 and b = ?b and pre = "[]" and vs = "map (moved_from T) xs"
            and rest = "replicate (?c - ?k) None" and i = 0]
        by simp
    next
      case False
      then show ?thesis
        using b destroy_n_ok [where s = ?s3 and b = ?b and pre = "[]" and vs = xs
            and rest = "replicate (?c - ?k) None" and i = 0]
        by simp
    qed
    show ?thesis
    proof (cases "moves T")
      case True
      then have m: "nothrow_move_constructible T \<or> \<not> copy_constructible T"
        by (simp add: moves_def)
      show ?thesis
        using v sz b a mv [OF True] d m grow
        by (auto simp add: Reserve_def bindP_def get_vector_ok with_RawMemory_on_def
            RawMemory_ctor_on_def ret_def GetAddress_def put_vector_def
            Deallocate_apply slots_def fun_eq_iff
            intro!: state.equality)
    next
      case False
      then have m: "\<not> (nothrow_move_constructible T \<or> \<not> copy_constructible T)"
        by (simp add: moves_def)
      show ?thesis
        using v sz b a cp [OF False] d m grow
        by (auto simp add: Reserve_def bindP_def get_vector_ok with_RawMemory_on_def
            RawMemory_ctor_on_def ret_def GetAddress_def put_vector_def
            Deallocate_apply slots_def fun_eq_iff
            intro!: state.equality)
    qed
  qed
qed

lemma Erase_ok:
  assumes v: "vectors s this = Some v" and h: "holds s v xs" and f: "faults s = []"
    and i: "i < length xs"
  shows "Erase T this (buffer_m (data_m v), i) s =
    (Inr (buffer_m (data_m v), i),
     s\<lparr>heap := (heap s)(buffer_m (data_m v) :=
                  Some (slots (capacity_m (data_m v)) (take i xs @ drop (Suc i) xs))),
       log := log s @ replicate (length xs - Suc i) (shifting T) @ [Destroy],
       vectors := (vectors s)(this := Some (v\<lparr>size_m := length xs - 1\<rparr>))\<rparr>)"
proof -
  let ?b = "buffer_m (data_m v)" and ?c = "capacity_m (data_m v)"
  define pre a ms where "pre = take i xs" and "a = xs ! i" and "ms = drop (Suc i) xs"
  have xs: "xs = pre @ a # ms" and lp: "length pre = i" and lm: "length ms = length xs - Suc i"
    using i by (simp_all add: pre_def a_def ms_def id_take_nth_drop)
  have sz: "size_m v = length xs" and le: "length xs \<le> ?c"
    using h by (simp_all add: holds_def)
  have c0: "?c \<noteq> 0" using i le by auto
  let ?rest = "replicate (?c - length xs) (None :: 'a option)"
  have hb: "heap s ?b = Some (map Some pre @ Some a # map Some ms @ ?rest)"
    using h c0 by (simp add: holds_def slots_def xs)
  let ?z = "if moves T then (if ms = [] then a else moved_from T (last ms)) else last (a # ms)"
  let ?s1 = "s\<lparr>heap := (heap s)(?b := Some (map Some pre @ map Some ms @ Some ?z # ?rest)),
                log := log s @ replicate (length ms) (shifting T)\<rparr>"
  have mv: "move_n_assign T (?b, Suc i) (length ms) (?b, i) s = (Inr (), ?s1)" if "moves T"
    using f hb lp that
    by (subst move_n_assign_down [where pre = "map Some pre" and a = a and rest = ?rest])
       (auto simp add: shifting_def)
  have cp: "copy_n_assign (?b, Suc i) (length ms) (?b, i) s = (Inr (), ?s1)" if "\<not> moves T"
    using f hb lp that
    by (subst copy_n_assign_down [where pre = "map Some pre" and a = a and rest = ?rest])
       (auto simp add: shifting_def)
  let ?s2 = "?s1\<lparr>heap := (heap ?s1)(?b := Some ((map Some pre @ map Some ms) @ None # ?rest)),
                log := log ?s1 @ [Destroy]\<rparr>"
  have d: "destroy_at (?b, length xs - 1) ?s1 = (Inr (), ?s2)"
    using lp lm i
    by (intro destroy_at_ok [where v = ?z]) auto
  have fin: "(map Some pre @ map Some ms) @ None # ?rest = slots ?c (take i xs @ drop (Suc i) xs)"
    using i le by (simp add: slots_def pre_def ms_def Suc_diff_Suc min_def flip: replicate_Suc)
  show ?thesis
  proof (cases "moves T")
    case True
    then have m: "nothrow_move_constructible T \<or> \<not> copy_constructible T"
      by (simp add: moves_def)
    show ?thesis
      using v sz i lm mv [OF True] d m fin
      by (auto simp add: Erase_def bindP_def get_vector_ok assert_def ret_def begin_ptr_def
          end_ptr_def GetAddress_def ptr_add_def prev_def std_move_def
          set_size_def put_vector_def get_vector_def fun_eq_iff
          intro!: state.equality)
  next
    case False
    then have m: "\<not> (nothrow_move_constructible T \<or> \<not> copy_constructible T)"
      by (simp add: moves_def)
    show ?thesis
      using v sz i lm cp [OF False] d m fin
      by (auto simp add: Erase_def bindP_def get_vector_ok assert_def ret_def begin_ptr_def
          end_ptr_def GetAddress_def ptr_add_def prev_def std_copy_def
          set_size_def put_vector_def get_vector_def fun_eq_iff
          intro!: state.equality)
  qed
qed

lemma Emplace_at_end:
  assumes v: "vectors s this = Some v" and h: "holds s v xs" and f: "faults s = []"
  shows "Emplace T this (buffer_m (data_m v), length xs) x s = EmplaceBack T this x s"
proof -
  have sz: "size_m v = length xs" and le: "length xs \<le> capacity_m (data_m v)"
    using h by (simp_all add: holds_def)
  show ?thesis
  proof (cases "length xs < capacity_m (data_m v)")
    case True
    show ?thesis
      using v sz
      by (simp add: Emplace_unfold bindP_def get_vector_ok assert_def ret_def begin_ptr_def
          end_ptr_def GetAddress_def ptr_add_def prev_def
          EmplaceBack_in_capacity [OF v h f True] get_vector_def)
  next
    case False
    then have full: "length xs = capacity_m (data_m v)" using le by simp
    show ?thesis
      using v sz
      by (simp add: Emplace_unfold bindP_def get_vector_ok assert_def ret_def begin_ptr_def
          end_ptr_def GetAddress_def ptr_add_def prev_def
          EmplaceBack_reallocating [OF v h f full] get_vector_def)
  qed
qed

lemma Emplace_in_capacity:
  assumes v: "vectors s this = Some v" and h: "holds s v xs" and f: "faults s = []"
    and i: "i < length xs" and room: "length xs < capacity_m (data_m v)"
  shows "Emplace T this (buffer_m (data_m v), i) x s =
    (Inr (buffer_m (data_m v), i),
     s\<lparr>heap := (heap s)(buffer_m (data_m v) :=
                  Some (slots (capacity_m (data_m v)) (take i xs @ x # drop i xs))),
       log := log s @ Construct # MoveConstruct # replicate (length xs - i) MoveAssign @ [Destroy],
       vectors := (vectors s)(this := Some (v\<lparr>size_m := Suc (length xs)\<rparr>))\<rparr>)"
proof -
  let ?b = "buffer_m (data_m v)" and ?c = "capacity_m (data_m v)" and ?n = "length xs"
  define pre ms l where "pre = take i xs" and "ms = butlast (drop i xs)" and "l = last xs"
  have di: "drop i xs \<noteq> []" using i by simp
  have xs: "xs = pre @ ms @ [l]"
    using i di by (metis append_butlast_last_id append_take_drop_id l_def last_drop ms_def pre_def)
  have lp: "length pre = i" and lm: "length ms = ?n - Suc i"
    using i by (simp_all add: pre_def ms_def)
  have n: "?n = Suc (i + length ms)" using lm i by simp
  have sz: "size_m v = ?n" using h by (simp add: holds_def)
  let ?rest = "replicate (?c - Suc ?n) (None :: 'a option)"
  have hb: "heap s ?b = Some ((map Some pre @ map Some ms) @ Some l # None # ?rest)"
    using h room by (simp add: holds_def slots_room) (simp add: xs)
  let ?s0 = "s\<lparr>log := log s @ [Construct]\<rparr>"
  let ?s1 = "?s0\<lparr>heap := (heap ?s0)(?b := Some ((map Some pre @ map Some ms) @ Some (moved_from T l) # Some l # ?rest)),
                log := log ?s0 @ [MoveConstruct]\<rparr>"
  have mc: "move_construct T (?b, Suc (i + length ms)) (?b, i + length ms) ?s0 = (Inr (), ?s1)"
    using f hb lp
    by (intro move_construct_up [where pre = "map Some pre @ map Some ms" and v = l
          and y = None and rest = ?rest]) auto
  let ?mid = "if ms = [] then [Some (moved_from T l)] else Some (moved_from T (hd ms)) # map Some ms"
  let ?s2 = "?s1\<lparr>heap := (heap ?s1)(?b := Some (map Some pre @ ?mid @ Some l # ?rest)),
                log := log ?s1 @ replicate (length ms) MoveAssign\<rparr>"
  have mb: "move_backward_n T (?b, i) (length ms) (?b, Suc i) ?s1 = (Inr (), ?s2)"
    using f lp
    by (intro move_backward_n_up [where pre = "map Some pre" and z = "moved_from T l"
          and rest = "Some l # ?rest"]) auto
  let ?s3 = "?s2\<lparr>heap := (heap ?s2)(?b := Some (map Some pre @ Some x # map Some ms @ Some l # ?rest)),
                log := log ?s2 @ [MoveAssign]\<rparr>"
  have as: "T_move_assign_value (?b, i) x ?s2 = (Inr (), ?s3)"
    using f lp
    by (intro T_move_assign_value_ok [where pre = "map Some pre"
          and w = "if ms = [] then moved_from T l else moved_from T (hd ms)"
          and rest = "map Some ms @ Some l # ?rest"]) auto
  have fin: "map Some pre @ Some x # map Some ms @ Some l # ?rest = slots ?c (take i xs @ x # drop i xs)"
  proof -
    have "take i xs @ x # drop i xs = pre @ x # ms @ [l]"
      using lp by (subst (1 2) xs) simp
    then show ?thesis using n lp by (simp add: slots_def)
  qed
  show ?thesis
    using v sz i room mc mb as f fin
    unfolding n
    by (auto simp add: Emplace_unfold bindP_def get_vector_ok assert_def ret_def begin_ptr_def
        end_ptr_def GetAddress_def ptr_add_def prev_def move_backward_def
        RawMemory_plus_def may_throw_none record_event_def try_catch_def with_local_def
        set_size_def put_vector_def get_vector_def fun_eq_iff replicate_append_same
        intro!: state.equality)
qed

lemma Emplace_reallocating:
  assumes v: "vectors s this = Some v" and h: "holds s v xs" and f: "faults s = []"
    and i: "i < length xs" and full: "length xs = capacity_m (data_m v)"
  shows "Emplace T this (buffer_m (data_m v), i) x s =
    (Inr (brk s, i),
     s\<lparr>heap := (heap s)(brk s := Some (slots (2 * length xs) (take i xs @ x # drop i xs)),
                         buffer_m (data_m v) := None),
       brk := Suc (brk s),
       log := log s @ Construct # replicate (length xs) (migration T) @ replicate (length xs) Destroy,
       vectors := (vectors s)(this := Some \<lparr>data_m = \<lparr>buffer_m = brk s,
                                 capacity_m = 2 * length xs\<rparr>,
                               size_m = Suc (length xs)\<rparr>)\<rparr>)"
proof -
  let ?b = "buffer_m (data_m v)" and ?n = "length xs"
  let ?c = "if size_m v = 0 then 1 else size_m v * 2"
  define pre suf where "pre = take i xs" and "suf = drop i xs"
  have xs: "xs = pre @ suf" and lp: "length pre = i" and ls: "length suf = ?n - i"
    using i by (simp_all add: pre_def suf_def)
  have n: "?n = i + length suf" using ls i by simp
  have sz: "size_m v = ?n" and brk: "0 < brk s"
    using h by (simp_all add: holds_def)
  have c: "?c = 2 * ?n" "?c \<noteq> 0" using sz i by auto
  have cap: "capacity_m (data_m v) \<noteq> 0" using full i by auto
  then have b: "0 < ?b" "?b < brk s" and hb: "heap s ?b = Some (map Some pre @ map Some suf)"
    using h by (simp_all add: holds_def full [symmetric]) (simp add: xs)
  let ?tail = "replicate (?n - 1) (None :: 'a option)"
  let ?s1 = "s\<lparr>heap := (heap s)(brk s := Some (replicate ?c None)), brk := Suc (brk s)\<rparr>"
  have a: "Allocate ?c s = (Inr (brk s), ?s1)"
    using f c(2) by (rule Allocate_ok)
  have rep: "replicate ?c None = replicate i None @ (None :: 'a option) # replicate (length suf) None @ ?tail"
  proof -
    have "?c = i + Suc (length suf + (?n - 1))" using c(1) n i by simp
    then show ?thesis by (simp only: replicate_add replicate_Suc)
  qed
  let ?s2 = "?s1\<lparr>heap := (heap ?s1)(brk s := Some (replicate i None @ Some x # replicate (length suf) None @ ?tail)),
                log := log ?s1 @ [Construct]\<rparr>"
  have p: "construct_at (brk s, i) x ?s1 = (Inr (), ?s2)"
    using f rep
    by (intro construct_at_ok [where y = None]) auto
  let ?opre = "if moves T then map Some (map (moved_from T) pre) else map Some pre"
  let ?osuf = "if moves T then map Some (map (moved_from T) suf) else map Some suf"
  let ?s3 = "?s2\<lparr>heap := (heap ?s2)(?b := Some (?opre @ map Some suf),
                  brk s := Some (map Some pre @ Some x # replicate (length suf) None @ ?tail)),
                log := log ?s2 @ replicate i (migration T)\<rparr>"
  have mv1: "uninitialized_move_n T (?b, 0) i (brk s, 0) ?s2 = (Inr (), ?s3)" if "moves T"
    using f b hb that lp
    by (subst uninitialized_move_n_ok [where spre = "[]" and vs = pre and srest = "map Some suf"
          and dpre = "[]" and dmid = "replicate i None"
          and drest = "Some x # replicate (length suf) None @ ?tail"])
       (auto simp add: migration_def fun_eq_iff intro!: state.equality)
  have cp1: "uninitialized_copy_n (?b, 0) i (brk s, 0) ?s2 = (Inr (), ?s3)" if "\<not> moves T"
    using f b hb that lp
    by (subst uninitialized_copy_n_ok [where spre = "[]" and vs = pre and srest = "map Some suf"
          and dpre = "[]" and dmid = "replicate i None"
          and drest = "Some x # replicate (length suf) None @ ?tail"])
       (auto simp add: migration_def fun_eq_iff intro!: state.equality)
  let ?s4 = "?s3\<lparr>heap := (heap ?s3)(?b := Some (?opre @ ?osuf),
                  brk s := Some ((map Some pre @ [Some x]) @ map Some suf @ ?tail)),
                log := log ?s3 @ replicate (length suf) (migration T)\<rparr>"
  have mv2: "uninitialized_move_n T (?b, i) (length suf) (brk s, Suc i) ?s3 = (Inr (), ?s4)" if "moves T"
    using f b that lp
    by (subst uninitialized_move_n_ok [where spre = "map Some (map (moved_from T) pre)"
          and vs = suf and srest = "[]"
          and dpre = "map Some pre @ [Some x]" and dmid = "replicate (length suf) None"
          and drest = ?tail])
       (auto simp add: migration_def fun_eq_iff intro!: state.equality)
  have cp2: "uninitialized_copy_n (?b, i) (length suf) (brk s, Suc i) ?s3 = (Inr (), ?s4)" if "\<not> moves T"
    using f b that lp
    by (subst uninitialized_copy_n_ok [where spre = "map Some pre"
          and vs = suf and srest = "[]"
          and dpre = "map Some pre @ [Some x]" and dmid = "replicate (length suf) None"
          and drest = ?tail])
       (auto simp add: migration_def fun_eq_iff intro!: state.equality)
  let ?s5 = "?s4\<lparr>heap := (heap ?s4)(?b := Some (replicate ?n None)),
                log := log ?s4 @ replicate ?n Destroy\<rparr>"
  have d: "destroy_n (?b, 0) ?n ?s4 = (Inr (), ?s5)"
  proof (cases "moves T")
    case True
    then show ?thesis
      using b destroy_n_ok [where s = ?s4 and b = ?b and pre = "[]" and vs = "map (moved_from T) xs"
          and rest = "[]" and i = 0]
      by (simp add: xs)
  next
    case False
    then show ?thesis
      using b destroy_n_ok [where s = ?s4 and b = ?b and pre = "[]" and vs = xs
          and rest = "[]" and i = 0]
      by (simp add: xs)
  qed
  have fin: "(map Some pre @ [Some x]) @ map Some suf @ ?tail = slots (2 * ?n) (take i xs @ x # drop i xs)"
  proof -
    have "2 * ?n - Suc ?n = ?n - 1" by simp
    then show ?thesis by (simp add: slots_def pre_def suf_def)
  qed
  have logs: "replicate i (migration T) @ replicate (length suf) (migration T) = replicate ?n (migration T)"
    using n by (simp flip: replicate_add)
  show ?thesis
  proof (cases "moves T")
    case True
    then have m: "nothrow_move_constructible T \<or> \<not> copy_constructible T"
      by (simp add: moves_def)
    show ?thesis
      using v sz i b c(1) a p mv1 [OF True] mv2 [OF True] d m full fin logs ls
      by (auto simp add: Emplace_unfold bindP_def get_vector_ok with_RawMemory_unfold assert_def
          RawMemory_ctor_unfold RawMemory_plus_def ret_def GetAddress_def begin_ptr_def end_ptr_def
          ptr_add_def destroy_def try_catch_def
          set_size_def put_vector_def get_vector_def
          Deallocate_apply fun_eq_iff
          intro!: state.equality)
  next
    case False
    then have m: "\<not> (nothrow_move_constructible T \<or> \<not> copy_constructible T)"
      by (simp add: moves_def)
    show ?thesis
      using v sz i b c(1) a p cp1 [OF False] cp2 [OF False] d m full fin logs ls
      by (auto simp add: Emplace_unfold bindP_def get_vector_ok with_RawMemory_unfold assert_def
          RawMemory_ctor_unfold RawMemory_plus_def ret_def GetAddress_def begin_ptr_def end_ptr_def
          ptr_add_def destroy_def try_catch_def
          set_size_def put_vector_def get_vector_def
          Deallocate_apply fun_eq_iff
          intro!: state.equality)
  qed
qed

lemma nonempty_capacity: "ys \<noteq> [] \<Longrightarrow> length ys \<le> c \<Longrightarrow> c \<noteq> (0::nat)"
  by (cases ys) auto

lemma destroy_n_range:
  "heap s b = Some (pre @ map Some vs @ rest) \<Longrightarrow> i = length pre \<Longrightarrow> n = length vs \<Longrightarrow>
   destroy_n (b, i) n s =
     (Inr (), s\<lparr>heap := (heap s)(b := Some (pre @ replicate n None @ rest)),
                 log := log s @ replicate n Destroy\<rparr>)"
  by (simp add: destroy_n_ok)

lemma Vector_copy_ok:
  assumes h: "holds s r ys" and f: "faults s = []" and ne: "ys \<noteq> []"
  shows "Vector_copy r s =
    (Inr \<lparr>data_m = \<lparr>buffer_m = brk s, capacity_m = length ys\<rparr>, size_m = length ys\<rparr>,
     s\<lparr>heap := (heap s)(brk s := Some (map Some ys)),
       brk := Suc (brk s),
       log := log s @ replicate (length ys) CopyConstruct\<rparr>)"
proof -
  let ?b = "buffer_m (data_m r)" and ?n = "length ys" and ?c = "capacity_m (data_m r)"
  have sz: "size_m r = ?n" and le: "?n \<le> ?c" using h by (simp_all add: holds_def)
  have n0: "?n \<noteq> 0" using ne by simp
  have c0: "?c \<noteq> 0" using ne le by (rule nonempty_capacity)
  then have b: "?b < brk s" and hb: "heap s ?b = Some (map Some ys @ replicate (?c - ?n) None)"
    using h by (simp_all add: holds_def slots_def)
  let ?s1 = "s\<lparr>heap := (heap s)(brk s := Some (replicate ?n None)), brk := Suc (brk s)\<rparr>"
  have a: "Allocate ?n s = (Inr (brk s), ?s1)"
    using f n0 by (rule Allocate_ok)
  let ?s2 = "?s1\<lparr>heap := (heap ?s1)(brk s := Some (map Some ys)),
                log := log ?s1 @ replicate ?n CopyConstruct\<rparr>"
  have cp: "uninitialized_copy_n (?b, 0) ?n (brk s, 0) ?s1 = (Inr (), ?s2)"
    using f b hb
    by (subst uninitialized_copy_n_ok [where spre = "[]" and vs = ys
          and srest = "replicate (?c - ?n) None"
          and dpre = "[]" and dmid = "replicate ?n None" and drest = "[]"])
       (auto simp add: fun_eq_iff intro!: state.equality)
  show ?thesis
    using sz a cp
    by (auto simp add: Vector_copy_def bindP_def RawMemory_ctor_unfold ret_def GetAddress_def
        try_catch_def fun_eq_iff intro!: state.equality)
qed

lemma Vector_dtor_ok:
  assumes h: "holds s v xs"
  shows "Vector_dtor v s =
    (Inr (), s\<lparr>heap := (heap s)(buffer_m (data_m v) := None),
               log := log s @ replicate (length xs) Destroy\<rparr>)"
proof -
  let ?b = "buffer_m (data_m v)" and ?n = "length xs" and ?c = "capacity_m (data_m v)"
  have sz: "size_m v = ?n" and null: "heap s 0 = None" using h by (simp_all add: holds_def)
  show ?thesis
  proof (cases "?c = 0")
    case True
    then have "?b = 0" "xs = []" using h by (simp_all add: holds_def)
    then show ?thesis
      using sz null
      by (auto simp add: Vector_dtor_def bindP_def ret_def GetAddress_def Deallocate_apply
          fun_eq_iff intro!: state.equality)
  next
    case False
    then have b: "0 < ?b" and hb: "heap s ?b = Some (map Some xs @ replicate (?c - ?n) None)"
      using h by (simp_all add: holds_def slots_def)
    have d: "destroy_n (?b, 0) ?n s =
        (Inr (), s\<lparr>heap := (heap s)(?b := Some (replicate ?n None @ replicate (?c - ?n) None)),
                   log := log s @ replicate ?n Destroy\<rparr>)"
      using hb destroy_n_ok [where s = s and b = ?b and pre = "[]" and vs = xs
          and rest = "replicate (?c - ?n) None" and i = 0]
      by simp
    show ?thesis
      using sz b d
      by (auto simp add: Vector_dtor_def bindP_def GetAddress_def Deallocate_apply
          fun_eq_iff intro!: state.equality)
  qed
qed

text \<open>Copy assignment, the copy-and-swap path.\<close>

lemma Vector_copy_assign_swap:
  assumes ne: "this \<noteq> rhs" and v: "vectors s this = Some v" and r: "vectors s rhs = Some r"
    and hv: "holds s v xs" and hr: "holds s r ys" and f: "faults s = []"
    and big: "capacity_m (data_m v) < length ys"
  shows "Vector_copy_assign this rhs s =
    (Inr this,
     s\<lparr>heap := (heap s)(brk s := Some (map Some ys), buffer_m (data_m v) := None),
       brk := Suc (brk s),
       log := log s @ replicate (length ys) CopyConstruct @ replicate (length xs) Destroy,
       vectors := (vectors s)(this := Some \<lparr>data_m = \<lparr>buffer_m = brk s,
                                 capacity_m = length ys\<rparr>,
                               size_m = length ys\<rparr>)\<rparr>)"
proof -
  have ys: "ys \<noteq> []" using big by auto
  have szr: "size_m r = length ys" using hr by (simp add: holds_def)
  let ?s1 = "s\<lparr>heap := (heap s)(brk s := Some (map Some ys)), brk := Suc (brk s),
                log := log s @ replicate (length ys) CopyConstruct\<rparr>"
  let ?w = "\<lparr>data_m = \<lparr>buffer_m = brk s, capacity_m = length ys\<rparr>, size_m = length ys\<rparr>"
  let ?s2 = "?s1\<lparr>vectors := (vectors ?s1)(this := Some ?w)\<rparr>"
  have "holds ?s2 v xs"
    using hv by (auto simp add: holds_def)
  from Vector_dtor_ok [OF this]
  have d: "Vector_dtor v ?s2 =
      (Inr (), ?s2\<lparr>heap := (heap ?s2)(buffer_m (data_m v) := None),
                 log := log ?s2 @ replicate (length xs) Destroy\<rparr>)" .
  show ?thesis
    using ne v r szr big d
    by (auto simp add: Vector_copy_assign_def bindP_def get_vector_ok ret_def
        Vector_copy_ok [OF hr f ys] put_vector_def fun_eq_iff intro!: state.equality)
qed

text \<open>Copy assignment into the existing storage, the source being shorter.\<close>

lemma Vector_copy_assign_shrink:
  assumes ne: "this \<noteq> rhs" and v: "vectors s this = Some v" and r: "vectors s rhs = Some r"
    and hv: "holds s v xs" and hr: "holds s r ys" and f: "faults s = []"
    and sep: "buffer_m (data_m v) \<noteq> buffer_m (data_m r)"
    and short: "length ys < length xs"
  shows "Vector_copy_assign this rhs s =
    (Inr this,
     s\<lparr>heap := (heap s)(buffer_m (data_m v) := Some (slots (capacity_m (data_m v)) ys)),
       log := log s @ replicate (length ys) CopyAssign @ replicate (length xs - length ys) Destroy,
       vectors := (vectors s)(this := Some (v\<lparr>size_m := length ys\<rparr>))\<rparr>)"
proof -
  let ?bv = "buffer_m (data_m v)" and ?cv = "capacity_m (data_m v)"
  let ?br = "buffer_m (data_m r)" and ?cr = "capacity_m (data_m r)"
  let ?m = "length ys" and ?n = "length xs"
  have szv: "size_m v = ?n" and lev: "?n \<le> ?cv" using hv by (simp_all add: holds_def)
  have szr: "size_m r = ?m" and ler: "?m \<le> ?cr" using hr by (simp_all add: holds_def)
  have cv0: "?cv \<noteq> 0" using short lev by auto
  let ?rest = "replicate (?cv - ?n) (None :: 'a option)"
  have xs: "xs = take ?m xs @ drop ?m xs" by simp
  have hbv: "heap s ?bv = Some (map Some (take ?m xs) @ map Some (drop ?m xs) @ ?rest)"
    using hv cv0 by (simp add: holds_def slots_def flip: map_append)
  let ?s1 = "s\<lparr>heap := (heap s)(?bv := Some (map Some ys @ map Some (drop ?m xs) @ ?rest)),
                log := log s @ replicate ?m CopyAssign\<rparr>"
  have cp: "copy_n_assign (?br, 0) ?m (?bv, 0) s = (Inr (), ?s1)"
  proof (cases "ys = []")
    case True
    then show ?thesis using hbv by (auto simp add: ret_def fun_eq_iff intro!: state.equality)
  next
    case False
    then have "?cr \<noteq> 0" using ler by (rule nonempty_capacity)
    then have hbr: "heap s ?br = Some (map Some ys @ replicate (?cr - ?m) None)"
      using hr by (simp add: holds_def slots_def)
    show ?thesis
      using f sep hbr hbv short
      by (subst copy_n_assign_ok [where spre = "[]" and vs = ys
            and srest = "replicate (?cr - ?m) None"
            and dpre = "[]" and ws = "take ?m xs" and drest = "map Some (drop ?m xs) @ ?rest"])
         (auto simp add: fun_eq_iff intro!: state.equality)
  qed
  let ?s2 = "?s1\<lparr>heap := (heap ?s1)(?bv := Some (map Some ys @ replicate (?n - ?m) None @ ?rest)),
                log := log ?s1 @ replicate (?n - ?m) Destroy\<rparr>"
  have d: "destroy_n (?bv, ?m) (?n - ?m) ?s1 = (Inr (), ?s2)"
    by (intro destroy_n_range [where vs = "drop ?m xs"]) auto
  have fin: "map Some ys @ replicate (?n - ?m) None @ ?rest = slots ?cv ys"
    using short lev by (simp add: slots_def flip: replicate_add)
  show ?thesis
    using ne v r szv szr short lev cp d fin
    by (auto simp add: Vector_copy_assign_def bindP_def get_vector_ok ret_def std_copy_def
        GetAddress_def ptr_add_def set_size_def put_vector_def get_vector_def
        fun_eq_iff intro!: state.equality)
qed

text \<open>Copy assignment into the existing storage, the source being at least as long.\<close>

lemma Vector_copy_assign_grow:
  assumes ne: "this \<noteq> rhs" and v: "vectors s this = Some v" and r: "vectors s rhs = Some r"
    and hv: "holds s v xs" and hr: "holds s r ys" and f: "faults s = []"
    and sep: "buffer_m (data_m v) \<noteq> buffer_m (data_m r)"
    and long: "length xs \<le> length ys" and fits: "length ys \<le> capacity_m (data_m v)"
    and cv0: "capacity_m (data_m v) \<noteq> 0"
  shows "Vector_copy_assign this rhs s =
    (Inr this,
     s\<lparr>heap := (heap s)(buffer_m (data_m v) := Some (slots (capacity_m (data_m v)) ys)),
       log := log s @ replicate (length xs) CopyAssign @ replicate (length ys - length xs) CopyConstruct,
       vectors := (vectors s)(this := Some (v\<lparr>size_m := length ys\<rparr>))\<rparr>)"
proof -
  let ?bv = "buffer_m (data_m v)" and ?cv = "capacity_m (data_m v)"
  let ?br = "buffer_m (data_m r)" and ?cr = "capacity_m (data_m r)"
  let ?m = "length ys" and ?n = "length xs"
  have szv: "size_m v = ?n" using hv by (simp_all add: holds_def)
  have szr: "size_m r = ?m" and ler: "?m \<le> ?cr" using hr by (simp_all add: holds_def)
  have hbv: "heap s ?bv = Some (map Some xs @ replicate (?m - ?n) None @ replicate (?cv - ?m) None)"
    using hv cv0 long fits by (simp add: holds_def slots_def flip: replicate_add)
  show ?thesis
  proof (cases "ys = []")
    case True
    then have "xs = []" using long by simp
    then show ?thesis
      using ne v r szv szr True hbv
      by (auto simp add: Vector_copy_assign_def bindP_def get_vector_ok ret_def std_copy_def
          GetAddress_def ptr_add_def set_size_def put_vector_def get_vector_def slots_def
          fun_eq_iff intro!: state.equality)
  next
    case False
    then have "?cr \<noteq> 0" using ler by (rule nonempty_capacity)
    then have hbr: "heap s ?br = Some (map Some (take ?n ys) @ map Some (drop ?n ys) @ replicate (?cr - ?m) None)"
      using hr by (simp add: holds_def slots_def flip: map_append)
    let ?s1 = "s\<lparr>heap := (heap s)(?bv := Some (map Some (take ?n ys) @ replicate (?m - ?n) None
                                              @ replicate (?cv - ?m) None)),
                  log := log s @ replicate ?n CopyAssign\<rparr>"
    have cp: "copy_n_assign (?br, 0) ?n (?bv, 0) s = (Inr (), ?s1)"
      using f sep hbr hbv long
      by (subst copy_n_assign_ok [where spre = "[]" and vs = "take ?n ys"
            and srest = "map Some (drop ?n ys) @ replicate (?cr - ?m) None"
            and dpre = "[]" and ws = xs
            and drest = "replicate (?m - ?n) None @ replicate (?cv - ?m) None", simplified])
         (auto simp add: fun_eq_iff min_def intro!: state.equality)
    let ?s2 = "?s1\<lparr>heap := (heap ?s1)(?bv := Some (map Some (take ?n ys) @ map Some (drop ?n ys)
                                              @ replicate (?cv - ?m) None)),
                  log := log ?s1 @ replicate (?m - ?n) CopyConstruct\<rparr>"
    have uc: "uninitialized_copy_n (?br, ?n) (?m - ?n) (?bv, ?n) ?s1 = (Inr (), ?s2)"
      using f sep hbr long
      by (subst uninitialized_copy_n_ok [where spre = "map Some (take ?n ys)" and vs = "drop ?n ys"
            and srest = "replicate (?cr - ?m) None"
            and dpre = "map Some (take ?n ys)" and dmid = "replicate (?m - ?n) None"
            and drest = "replicate (?cv - ?m) None"])
         (auto simp add: fun_eq_iff min_def intro!: state.equality)
    have fin: "map Some (take ?n ys) @ map Some (drop ?n ys) @ replicate (?cv - ?m) None = slots ?cv ys"
      by (simp add: slots_def flip: map_append)
    show ?thesis
      using ne v r szv szr long fits cp uc fin
      by (auto simp add: Vector_copy_assign_def bindP_def get_vector_ok ret_def std_copy_def
          GetAddress_def ptr_add_def set_size_def put_vector_def get_vector_def
          fun_eq_iff intro!: state.equality)
  qed
qed

text \<open>Copy assignment between two vectors without storage.\<close>

lemma Vector_copy_assign_empty:
  assumes ne: "this \<noteq> rhs" and v: "vectors s this = Some v" and r: "vectors s rhs = Some r"
    and hv: "holds s v xs" and hr: "holds s r ys"
    and cv0: "capacity_m (data_m v) = 0" and ys: "ys = []"
  shows "Vector_copy_assign this rhs s = (Inr this, s)"
proof -
  have "size_m v = 0" using hv cv0 by (simp add: holds_def)
  moreover have "size_m r = 0" using hr ys by (simp add: holds_def)
  moreover have "v\<lparr>size_m := 0\<rparr> = v" using \<open>size_m v = 0\<close> by simp
  ultimately show ?thesis
    using ne v r cv0
    by (auto simp add: Vector_copy_assign_def bindP_def get_vector_ok ret_def std_copy_def
        GetAddress_def ptr_add_def set_size_def put_vector_def get_vector_def
        fun_eq_iff intro!: state.equality)
qed


section \<open>Vectors that hold their elements\<close>

lemma holds_faults [simp]: "holds (s\<lparr>faults := fs\<rparr>) v xs = holds s v xs"
  by (simp add: holds_def)

lemma holds_sizes: "holds s v xs \<Longrightarrow> size_m v = length xs \<and> length xs \<le> capacity_m (data_m v)"
  by (simp add: holds_def)

lemma holds_buffer: "holds s v xs \<Longrightarrow> buffer_m (data_m v) < brk s \<and> 0 < brk s \<and> heap s 0 = None"
  by (auto simp add: holds_def split: if_splits)

lemma full_state_vector: "vectors full_state 7 = Some full_vector"
  by (simp add: full_state_def)

lemma full_state_holds: "holds full_state full_vector [10, 20]"
  by (simp add: holds_def full_state_def full_vector_def slots_def)

lemma full_state_faults: "faults full_state = []"
  by (simp add: full_state_def)

lemma full_vector_full: "size_m full_vector = capacity_m (data_m full_vector)"
  by (simp add: full_vector_def)

lemma empty_state_holds: "holds empty_state Vector_default []"
  by (simp add: holds_def empty_state_def Vector_default_def RawMemory_default_def)

lemma two_vectors_holds:
  "holds two_vectors roomy_vector [10, 20]" "holds two_vectors other_vector [1, 2, 3]"
  by code_simp+

lemma EmplaceBack_holds:
  assumes v: "vectors s this = Some v" and h: "holds s v xs" and f: "faults s = []"
  shows "\<exists>s' v'. EmplaceBack T this x s = (Inr (buffer_m (data_m v'), length xs), s') \<and>
       vectors s' this = Some v' \<and> holds s' v' (xs @ [x]) \<and> faults s' = [] \<and>
       capacity_m (data_m v') =
         (if length xs = capacity_m (data_m v) then max 1 (2 * capacity_m (data_m v))
          else capacity_m (data_m v))"
proof -
  note b = holds_buffer [OF h] and sz = holds_sizes [OF h]
  show ?thesis
  proof (cases "length xs = capacity_m (data_m v)")
    case True
    show ?thesis
      using EmplaceBack_reallocating [OF v h f True, of T x] b sz f True
      by (auto simp add: holds_def)
  next
    case False
    then have room: "length xs < capacity_m (data_m v)" using sz by simp
    show ?thesis
      using EmplaceBack_in_capacity [OF v h f room, of T x] b sz f room h
      by (auto simp add: holds_def)
  qed
qed

lemma Emplace_holds:
  assumes v: "vectors s this = Some v" and h: "holds s v xs" and f: "faults s = []"
    and i: "i \<le> length xs"
  shows "\<exists>s' v'. Emplace T this (buffer_m (data_m v), i) x s = (Inr (buffer_m (data_m v'), i), s') \<and>
       vectors s' this = Some v' \<and> holds s' v' (take i xs @ x # drop i xs) \<and>
       faults s' = [] \<and>
       capacity_m (data_m v') =
         (if length xs = capacity_m (data_m v) then max 1 (2 * capacity_m (data_m v))
          else capacity_m (data_m v))"
proof -
  note b = holds_buffer [OF h] and sz = holds_sizes [OF h]
  show ?thesis
  proof (cases "i = length xs")
    case True
    then show ?thesis
      using Emplace_at_end [OF v h f, of T x] EmplaceBack_holds [OF v h f, of T x]
      by auto
  next
    case False
    then have i': "i < length xs" using i by simp
    show ?thesis
    proof (cases "length xs = capacity_m (data_m v)")
      case True
      have "max (Suc 0) (2 * length xs) = 2 * length xs" using i' by simp
      then show ?thesis
        using Emplace_reallocating [OF v h f i' True, of T x] b sz f True i'
        by (auto simp add: holds_def)
    next
      case False
      then have room: "length xs < capacity_m (data_m v)" using sz by simp
      show ?thesis
        using Emplace_in_capacity [OF v h f i' room, of T x] b sz f room h
        by (auto simp add: holds_def)
    qed
  qed
qed

lemma EmplaceBack_construction_fails:
  assumes v: "vectors s this = Some v" and h: "holds s v xs"
    and full: "size_m v = capacity_m (data_m v)" and f: "faults s = False # True # fs"
  shows "EmplaceBack T this x s =
    (Inl ElementOperationFailure,
     s\<lparr>faults := fs, heap := (heap s)(brk s := None), brk := Suc (brk s)\<rparr>)"
proof -
  have b: "0 < brk s" using h by (simp add: holds_def)
  show ?thesis
    using v full f b
    by (auto simp add: EmplaceBack_unfold bindP_def get_vector_ok with_RawMemory_unfold
        RawMemory_ctor_unfold Allocate_unfold may_throw_def RawMemory_plus_def assert_def ret_def
        construct_at_def is_exception_def Deallocate_apply raise_def fun_eq_iff
        intro!: state.equality)
qed

lemma PushBack_all_holds:
  assumes "vectors s this = Some v" and "holds s v xs" and "faults s = []"
    and "xs = [] \<and> capacity_m (data_m v) = 0 \<or>
         (\<exists>k. capacity_m (data_m v) = 2 ^ k \<and> length xs \<le> 2 ^ k \<and> 2 ^ k < 2 * length xs)"
  shows "\<exists>s' v'. PushBack_all T this vs s = (Inr (), s') \<and> vectors s' this = Some v' \<and>
       holds s' v' (xs @ vs) \<and>
       (xs @ vs = [] \<and> capacity_m (data_m v') = 0 \<or>
        (\<exists>k. capacity_m (data_m v') = 2 ^ k \<and> length (xs @ vs) \<le> 2 ^ k \<and>
             2 ^ k < 2 * length (xs @ vs)))"
  using assms
proof (induction vs arbitrary: s v xs)
  case Nil
  then show ?case by (simp add: ret_def)
next
  case (Cons x vs)
  obtain s1 v1 where e: "EmplaceBack T this x s = (Inr (buffer_m (data_m v1), length xs), s1)"
    and v1: "vectors s1 this = Some v1" and h1: "holds s1 v1 (xs @ [x])" and f1: "faults s1 = []"
    and c1: "capacity_m (data_m v1) =
         (if length xs = capacity_m (data_m v) then max 1 (2 * capacity_m (data_m v))
          else capacity_m (data_m v))"
    using EmplaceBack_holds [OF Cons.prems(1-3), of T x] by blast
  have inv: "xs @ [x] = [] \<and> capacity_m (data_m v1) = 0 \<or>
         (\<exists>k. capacity_m (data_m v1) = 2 ^ k \<and> length (xs @ [x]) \<le> 2 ^ k \<and>
              2 ^ k < 2 * length (xs @ [x]))"
  proof -
    from Cons.prems(4) show ?thesis
    proof
      assume "xs = [] \<and> capacity_m (data_m v) = 0"
      then have "capacity_m (data_m v1) = 2 ^ 0" "length (xs @ [x]) = 1" using c1 by simp_all
      then show ?thesis by (intro disjI2 exI [where x = 0]) simp
    next
      assume "\<exists>k. capacity_m (data_m v) = 2 ^ k \<and> length xs \<le> 2 ^ k \<and> 2 ^ k < 2 * length xs"
      then obtain k where k: "capacity_m (data_m v) = 2 ^ k" "length xs \<le> 2 ^ k"
          "2 ^ k < 2 * length xs" by blast
      show ?thesis
      proof (cases "length xs = capacity_m (data_m v)")
        case True
        then have "capacity_m (data_m v1) = 2 ^ Suc k" using c1 k by simp
        moreover have "length (xs @ [x]) \<le> 2 ^ Suc k" "2 ^ Suc k < 2 * length (xs @ [x])"
          using True k by simp_all
        ultimately show ?thesis by blast
      next
        case False
        then have "capacity_m (data_m v1) = 2 ^ k" using c1 k by simp
        moreover have "length (xs @ [x]) \<le> 2 ^ k" "2 ^ k < 2 * length (xs @ [x])"
          using False k by simp_all
        ultimately show ?thesis by blast
      qed
    qed
  qed
  from Cons.IH [OF v1 h1 f1 inv]
  show ?case
    by (simp add: PushBack_def bindP_def e ret_def)
qed

lemma write_elsewhere:
  "holds s w zs \<Longrightarrow> fst p \<noteq> buffer_m (data_m w) \<Longrightarrow>
   holds (snd (T_move_assign_value p z s)) w zs"
  by (auto simp add: T_move_assign_value_def bindP_def read_slot_def may_throw_def
      write_slot_def record_event_def holds_def
      split: option.splits list.splits if_splits)

text \<open>
  A vector holds \<open>xs\<close> exactly when it satisfies the invariant and \<open>xs\<close> are the
  elements read back from its live slots.
\<close>

lemma slots_invariant:
  "length xs \<le> c \<Longrightarrow>
   length (slots c xs) = c \<and> list_all live (take (length xs) (slots c xs)) \<and>
   list_all (\<lambda>y. \<not> live y) (drop (length xs) (slots c xs)) \<and>
   map the (take (length xs) (slots c xs)) = xs"
  by (simp add: slots_def live_def list_all_iff comp_def)

lemma invariant_slots:
  assumes "list_all live (take n ys)" and "list_all (\<lambda>y. \<not> live y) (drop n ys)" and "n \<le> length ys"
  shows "ys = slots (length ys) (map the (take n ys))"
proof -
  have "map Some (map the (take n ys)) = take n ys"
    using assms(1) by (induction "take n ys" arbitrary: n ys) (auto simp add: live_def list_all_iff map_idI)
  moreover have "drop n ys = replicate (length ys - n) None"
    using assms(2) by (intro replicate_eqI) (auto simp add: live_def list_all_iff)
  ultimately show ?thesis
    using assms(3) append_take_drop_id [of n ys] by (simp add: slots_def min_def)
qed

lemma holds_iff_invariant:
  "holds s v xs \<longleftrightarrow> Vector_invariant s v \<and> elements s v = xs"
proof (cases "capacity_m (data_m v) = 0")
  case True
  then show ?thesis
    by (auto simp add: holds_def Vector_invariant_def elements_def)
next
  case False
  show ?thesis
  proof
    assume h: "holds s v xs"
    then show "Vector_invariant s v \<and> elements s v = xs"
      using False slots_invariant [of xs "capacity_m (data_m v)"]
      by (auto simp add: holds_def Vector_invariant_def elements_def)
  next
    assume i: "Vector_invariant s v \<and> elements s v = xs"
    then obtain ys where ys: "heap s (buffer_m (data_m v)) = Some ys"
        "length ys = capacity_m (data_m v)" "list_all live (take (size_m v) ys)"
        "list_all (\<lambda>y. \<not> live y) (drop (size_m v) ys)" "size_m v \<le> length ys"
      using False by (auto simp add: Vector_invariant_def split: option.splits)
    from invariant_slots [OF ys(3,4,5)] have "ys = slots (length ys) (map the (take (size_m v) ys))" .
    moreover have "xs = map the (take (size_m v) ys)"
      using i ys(1) by (simp add: elements_def)
    ultimately show "holds s v xs"
      using i ys False by (auto simp add: holds_def Vector_invariant_def)
  qed
qed

section \<open>Runs in which something fails\<close>

text \<open>Steps that leave the vector objects alone, whatever fails.\<close>

lemma bindP_keeps:
  assumes "\<And>s. vectors (snd (m s)) = vectors s" and "\<And>x s. vectors (snd (f x s)) = vectors s"
  shows "vectors (snd (bindP m f s)) = vectors s"
proof (cases "m s")
  case (Pair r s1)
  then have "vectors s1 = vectors s" using assms(1) [of s] by simp
  then show ?thesis
    using Pair assms(2) by (cases r) (simp_all add: bindP_def)
qed

lemma try_catch_keeps:
  assumes "\<And>s. vectors (snd (m s)) = vectors s" and "\<And>e s. vectors (snd (h e s)) = vectors s"
  shows "vectors (snd (try_catch m h s)) = vectors s"
proof (cases "m s")
  case (Pair r s1)
  then have "vectors s1 = vectors s" using assms(1) [of s] by simp
  then show ?thesis
    using Pair assms(2) by (cases r) (simp_all add: try_catch_def)
qed

lemma ret_keeps: "vectors (snd (ret x s)) = vectors s"
  by (simp add: ret_def)

lemma raise_keeps: "vectors (snd (raise e s)) = vectors s"
  by (simp add: raise_def)

lemma may_throw_keeps: "vectors (snd (may_throw e s)) = vectors s"
  by (simp add: may_throw_def split: list.splits)

lemma record_event_keeps: "vectors (snd (record_event ev s)) = vectors s"
  by (simp add: record_event_def)

lemma read_slot_keeps: "vectors (snd (read_slot p s)) = vectors s"
  by (simp add: read_slot_def split: option.splits)

lemma write_slot_keeps: "vectors (snd (write_slot p x s)) = vectors s"
  by (simp add: write_slot_def split: option.splits)

lemmas step_keeps = bindP_keeps try_catch_keeps ret_keeps raise_keeps may_throw_keeps
  record_event_keeps read_slot_keeps write_slot_keeps

lemma construct_at_keeps: "vectors (snd (construct_at p x s)) = vectors s"
  unfolding construct_at_def by (intro step_keeps)

lemma copy_construct_keeps: "vectors (snd (copy_construct p q s)) = vectors s"
  unfolding copy_construct_def by (intro step_keeps)

lemma move_construct_keeps: "vectors (snd (move_construct T p q s)) = vectors s"
  unfolding move_construct_def by (cases "nothrow_move_constructible T") (simp; intro step_keeps)+

lemma destroy_at_keeps: "vectors (snd (destroy_at p s)) = vectors s"
  unfolding destroy_at_def by (intro step_keeps)

lemma destroy_n_keeps: "vectors (snd (destroy_n p n s)) = vectors s"
proof (induction n arbitrary: p s)
  case 0
  show ?case by (simp add: ret_keeps)
next
  case (Suc n)
  show ?case by (simp only: destroy_n.simps) (intro bindP_keeps destroy_at_keeps Suc.IH)
qed

lemma uninitialized_loop_keeps:
  assumes "\<And>k s. vectors (snd (step k s)) = vectors s"
  shows "vectors (snd (uninitialized_loop step d k m s)) = vectors s"
proof (induction m arbitrary: k s)
  case 0
  show ?case by (simp add: ret_keeps)
next
  case (Suc m)
  show ?case
    by (simp only: uninitialized_loop.simps)
       (intro bindP_keeps try_catch_keeps assms destroy_n_keeps raise_keeps Suc.IH)
qed

lemma migrate_keeps:
  "vectors (snd ((if nothrow_move_constructible T \<or> \<not> copy_constructible T
                  then uninitialized_move_n T p n q else uninitialized_copy_n p n q) s)) = vectors s"
  by (simp add: uninitialized_move_n_def uninitialized_copy_n_def uninitialized_loop_keeps
      move_construct_keeps copy_construct_keeps)

lemma Allocate_keeps: "vectors (snd (Allocate n s)) = vectors s"
  by (simp add: Allocate_unfold bindP_def may_throw_def ret_def split: list.splits)


lemma bindP_get_vector: "vectors s this = Some v \<Longrightarrow> bindP (get_vector this) f s = f v s"
  by (simp add: bindP_def get_vector_ok)

lemma with_RawMemory_cases:
  "with_RawMemory n body s =
     (case Allocate n s of
        (Inl e, s1) \<Rightarrow> (Inl e, s1)
      | (Inr b, s1) \<Rightarrow>
          (case body \<lparr>buffer_m = b, capacity_m = n\<rparr> s1 of
             (Inl e, s2) \<Rightarrow> (Inl e, if is_exception e then snd (Deallocate b s2) else s2)
           | (Inr (r, owned), s2) \<Rightarrow> (Inr r, snd (Deallocate (buffer_m owned) s2))))"
  by (simp add: with_RawMemory_unfold RawMemory_ctor_unfold bindP_def ret_def raise_def Deallocate_def
      split: prod.splits sum.splits)

lemma swap_in_new_data:
  assumes "size_m v < capacity_m d"
  shows "bindP (put_vector this (v\<lparr>data_m := d\<rparr>)) (\<lambda>_.
         bindP (set_size this (size_m v + 1)) (\<lambda>_.
         bindP (Back this) (\<lambda>r. ret (r, data_m v)))) s =
    (Inr ((buffer_m d, size_m v), data_m v),
     s\<lparr>vectors := (vectors s)(this := Some (v\<lparr>data_m := d, size_m := size_m v + 1\<rparr>))\<rparr>)"
  using assms
  by (simp add: bindP_def put_vector_def set_size_def get_vector_def Back_def RawMemory_index_def
      assert_def ret_def)

text \<open>
  Whatever fails, \<^verbatim>\<open>EmplaceBack\<close> leaves the vector object there, with a capacity
  that is at least the former one.
\<close>

lemma EmplaceBack_capacity:
  assumes v: "vectors s this = Some v"
  shows "\<exists>v'. vectors (snd (EmplaceBack T this x s)) this = Some v' \<and>
      capacity_m (data_m v) \<le> capacity_m (data_m v')"
proof (cases "size_m v = capacity_m (data_m v)")
  case False
  let ?pre = "bindP (RawMemory_plus (data_m v) (size_m v)) (\<lambda>p. construct_at p x)"
  let ?post = "bindP (set_size this (size_m v + 1)) (\<lambda>_. Back this)"
  have e: "EmplaceBack T this x s = bindP ?pre (\<lambda>_. ?post) s"
    using False by (simp add: EmplaceBack_unfold bindP_get_vector [OF v] bindP_assoc)
  have keep: "vectors (snd (?pre s)) = vectors s"
    by (intro bindP_keeps construct_at_keeps)
       (simp add: RawMemory_plus_def assert_def bindP_def ret_def raise_def)
  have post: "\<exists>v'. vectors (snd (?post s1)) this = Some v' \<and>
      capacity_m (data_m v) \<le> capacity_m (data_m v')" if "vectors s1 = vectors s" for s1
    using that v
    by (simp add: bindP_def set_size_def get_vector_def put_vector_def Back_def
        RawMemory_index_def assert_def ret_def raise_def)
  show ?thesis
  proof (cases "?pre s")
    case (Pair r s1)
    then have s1: "vectors s1 = vectors s" using keep by simp
    show ?thesis
    proof (cases r)
      case (Inl err)
      then show ?thesis using Pair s1 v by (simp add: e bindP_def)
    next
      case (Inr u)
      then have "bindP ?pre (\<lambda>_. ?post) s = ?post s1" using Pair by (simp add: bindP_def)
      then show ?thesis using post [OF s1] by (simp add: e)
    qed
  qed
next
  case True
  let ?c = "if size_m v = 0 then 1 else size_m v * 2"
  let ?pre = "\<lambda>d. bindP (RawMemory_plus d (size_m v)) (\<lambda>p.
         bindP (construct_at p x) (\<lambda>_.
         bindP (if nothrow_move_constructible T \<or> \<not> copy_constructible T
                then uninitialized_move_n T (GetAddress (data_m v)) (size_m v) (GetAddress d)
                else uninitialized_copy_n (GetAddress (data_m v)) (size_m v) (GetAddress d)) (\<lambda>_.
         destroy_n (GetAddress (data_m v)) (size_m v))))"
  let ?post = "\<lambda>d. bindP (put_vector this (v\<lparr>data_m := d\<rparr>)) (\<lambda>_.
         bindP (set_size this (size_m v + 1)) (\<lambda>_.
         bindP (Back this) (\<lambda>r. ret (r, data_m v))))"
  have e: "EmplaceBack T this x s = with_RawMemory ?c (\<lambda>d. bindP (?pre d) (\<lambda>_. ?post d)) s"
    using True by (simp add: EmplaceBack_unfold bindP_get_vector [OF v] bindP_assoc)
  have keep: "vectors (snd (?pre d s1)) = vectors s1" for d s1
    by (intro bindP_keeps construct_at_keeps migrate_keeps destroy_n_keeps)
       (simp add: RawMemory_plus_def assert_def bindP_def ret_def raise_def)
  have c: "capacity_m (data_m v) \<le> ?c" "size_m v < ?c" using True by auto
  show ?thesis
  proof (cases "Allocate ?c s")
    case (Pair a s1)
    then have s1: "vectors s1 = vectors s" using Allocate_keeps [of ?c s] by simp
    show ?thesis
    proof (cases a)
      case (Inl err)
      then show ?thesis
        using Pair s1 v by (simp add: e with_RawMemory_cases)
    next
      case (Inr b)
      let ?d = "\<lparr>buffer_m = b, capacity_m = ?c\<rparr>"
      show ?thesis
      proof (cases "?pre ?d s1")
        case pre: (Pair r s2)
        then have s2: "vectors s2 = vectors s" using keep [of ?d s1] s1 by simp
        show ?thesis
        proof (cases r)
          case (Inl err)
          then have "bindP (?pre ?d) (\<lambda>_. ?post ?d) s1 = (Inl err, s2)"
            using pre by (simp add: bindP_def)
          then show ?thesis
            using Pair \<open>a = Inr b\<close> s2 v
            by (simp add: e with_RawMemory_cases Deallocate_def)
        next
          case (Inr u)
          then have "bindP (?pre ?d) (\<lambda>_. ?post ?d) s1 = ?post ?d s2"
            using pre by (simp add: bindP_def)
          also have "\<dots> = (Inr ((b, size_m v), data_m v),
              s2\<lparr>vectors := (vectors s2)(this := Some (v\<lparr>data_m := ?d, size_m := size_m v + 1\<rparr>))\<rparr>)"
            using c(2) by (subst swap_in_new_data) simp_all
          finally show ?thesis
            using Pair \<open>a = Inr b\<close> c(1)
            by (simp add: e with_RawMemory_cases Deallocate_def)
        qed
      qed
    qed
  qed
qed

lemma PushBack_state: "snd (PushBack T this x s) = snd (EmplaceBack T this x s)"
proof (cases "EmplaceBack T this x s")
  case (Pair r s1)
  then show ?thesis by (cases r) (simp_all add: PushBack_def bindP_def ret_def)
qed

section \<open>The claims\<close>

subsection \<open>Reallocating insertion when a migration fails\<close>

text \<open>
  Claim C1. When a migration phase of the reallocating \<^verbatim>\<open>Emplace\<close> fails, the elements
  already constructed in the new storage are to be destroyed, the failure is to reach
  the caller, and the vector is to keep its size, capacity and contents.

  The code does not do so. The vector \<open>[10, 20]\<close> is full (size and capacity \<open>2\<close>),
  its elements are copied on reallocation, and \<open>99\<close> is inserted before its second
  element; the copy of the first old element throws. The handler destroys the new
  element and does not rethrow: the suffix is still copied, the old elements are
  destroyed, the storage is swapped and the size incremented. The call returns the
  position as if it had succeeded; the vector now has size \<open>3\<close> and capacity \<open>4\<close>,
  its old buffer is released, and of its three elements only the last one is a live
  object.
\<close>

theorem Emplace_swallows_migration_failure:
  "fst (Emplace T_copied 7 (1, 1) 99 first_copy_fails) = Inr (2, 1) \<and>
   vectors (snd (Emplace T_copied 7 (1, 1) 99 first_copy_fails)) 7 =
     Some \<lparr>data_m = \<lparr>buffer_m = 2, capacity_m = 4\<rparr>, size_m = 3\<rparr> \<and>
   heap (snd (Emplace T_copied 7 (1, 1) 99 first_copy_fails)) 2 =
     Some [None, None, Some 20, None] \<and>
   heap (snd (Emplace T_copied 7 (1, 1) 99 first_copy_fails)) 1 = None \<and>
   log (snd (Emplace T_copied 7 (1, 1) 99 first_copy_fails)) =
     [Construct, Destroy, CopyConstruct, Destroy, Destroy]"
  by code_simp

subsection \<open>Move construction and move assignment\<close>

text \<open>
  Claim C2 says that the source of a move construction or move assignment ends with
  size \<open>0\<close>. For the move assignment this fails: it swaps, so the source receives what
  the target held. Assigning the vector \<open>[1, 2, 3]\<close> at address \<open>8\<close> to the vector
  \<open>[10, 20]\<close> at address \<open>7\<close> leaves the source with size \<open>2\<close>.
\<close>

theorem move_assignment_source_not_empty:
  "fst (Vector_move_assign 7 8 two_vectors) = Inr 7 \<and>
   map_option size_m (vectors (snd (Vector_move_assign 7 8 two_vectors)) 8) = Some 2 \<and>
   map_option size_m (vectors (snd (Vector_move_assign 7 8 two_vectors)) 8) \<noteq> Some 0"
  by (simp add: Vector_move_assign_def Swap_def bindP_def get_vector_def put_vector_def ret_def
      two_vectors_def roomy_vector_def other_vector_def)

text \<open>
  Claim C2, amended. Move construction and move assignment of a distinct source
  exchange the buffer pointer, the capacity and the size of the two objects and do
  nothing else: the heap and the log of element operations are unchanged, whatever
  the sizes are. After a move construction the source is the default vector, of size
  \<open>0\<close>; after a move assignment the source holds the former members of the target,
  so its size is the former size of the target.
\<close>

theorem move_is_storage_swap:
  assumes "vectors s this = Some t" and "vectors s rhs = Some w"
    and "this \<noteq> rhs" and "new \<noteq> rhs"
  shows "Vector_move new rhs s =
           (Inr (), s\<lparr>vectors := (vectors s)(new := Some w, rhs := Some Vector_default)\<rparr>) \<and>
         size_m Vector_default = 0 \<and>
         Vector_move_assign this rhs s =
           (Inr this, s\<lparr>vectors := (vectors s)(this := Some w, rhs := Some t)\<rparr>)"
  using assms
  by (auto simp add: Vector_move_def Vector_move_assign_def Swap_def bindP_def get_vector_def
      put_vector_def ret_def Vector_default_def fun_eq_iff intro!: state.equality)

text \<open>
  The two vectors above satisfy the hypotheses; the new object is constructed at
  address \<open>9\<close>.
\<close>

theorem move_is_storage_swap_witness:
  "vectors two_vectors 7 = Some roomy_vector \<and> vectors two_vectors 8 = Some other_vector \<and>
   (7 :: nat) \<noteq> 8 \<and> (9 :: nat) \<noteq> 8 \<and>
   Vector_move 9 8 two_vectors =
     (Inr (), two_vectors\<lparr>vectors := (vectors two_vectors)(9 := Some other_vector, 8 := Some Vector_default)\<rparr>) \<and>
   size_m Vector_default = 0 \<and>
   Vector_move_assign 7 8 two_vectors =
     (Inr 7, two_vectors\<lparr>vectors := (vectors two_vectors)(7 := Some other_vector, 8 := Some roomy_vector)\<rparr>)"
proof -
  have a: "vectors two_vectors 7 = Some roomy_vector" and b: "vectors two_vectors 8 = Some other_vector"
    by (simp_all add: two_vectors_def)
  have c: "(7 :: nat) \<noteq> 8" and d: "(9 :: nat) \<noteq> 8" by simp_all
  show ?thesis
    using move_is_storage_swap [OF a b c d] a b by simp
qed

subsection \<open>Appending when the capacity is exhausted\<close>

text \<open>
  Claim C3. Let the vector be full (\<open>size_m v = capacity_m (data_m v)\<close>) and hold \<open>xs\<close>.

  If the allocation succeeds and the construction of the new element throws, then
  \<^verbatim>\<open>EmplaceBack\<close> throws, the vector object is unchanged (its size and capacity with it),
  it still holds \<open>xs\<close>, its buffer is untouched and no element operation has been
  performed. \<^verbatim>\<open>PushBack\<close> throws the same failure and leaves the same state.

  If nothing fails, \<^verbatim>\<open>EmplaceBack\<close> returns a pointer to the last element of the vector,
  \<^verbatim>\<open>PushBack\<close> returns nothing and leaves the same state. The vector
  now holds \<open>xs @ [x]\<close> in a fresh buffer of capacity
  \<open>max 1 (2 * capacity)\<close>; its size is incremented and the old buffer is released. The
  log gives the order: the new element is constructed first, then each old element
  is moved when \<open>T\<close> has a non-throwing move constructor or cannot be copied and
  copied otherwise, then the old elements are destroyed.
\<close>

theorem EmplaceBack_reallocating_spec:
  assumes v: "vectors s this = Some v" and h: "holds s v xs"
    and full: "size_m v = capacity_m (data_m v)"
  shows
    "(\<exists>s'. EmplaceBack T this x (s\<lparr>faults := False # True # fs\<rparr>) =
            (Inl ElementOperationFailure, s') \<and>
        PushBack T this x (s\<lparr>faults := False # True # fs\<rparr>) =
            (Inl ElementOperationFailure, s') \<and>
        vectors s' = vectors s \<and> holds s' v xs \<and>
        heap s' (buffer_m (data_m v)) = heap s (buffer_m (data_m v)) \<and> log s' = log s) \<and>
     (\<exists>s' v'. EmplaceBack T this x (s\<lparr>faults := []\<rparr>) =
            (Inr (ptr_add (begin_ptr v') (size_m v)), s') \<and>
        PushBack T this x (s\<lparr>faults := []\<rparr>) = (Inr (), s') \<and>
        vectors s' this = Some v' \<and> holds s' v' (xs @ [x]) \<and>
        size_m v' = size_m v + 1 \<and>
        capacity_m (data_m v') = max 1 (2 * capacity_m (data_m v)) \<and>
        buffer_m (data_m v') = brk s \<and> heap s' (buffer_m (data_m v)) = None \<and>
        log s' = log s @ Construct #
          replicate (length xs)
            (if nothrow_move_constructible T \<or> \<not> copy_constructible T
             then MoveConstruct else CopyConstruct) @
          replicate (length xs) Destroy)"
proof -
  note b = holds_buffer [OF h] and sz = holds_sizes [OF h]
  have full': "length xs = capacity_m (data_m v)" using full sz by simp
  let ?sf = "s\<lparr>faults := False # True # fs\<rparr>"
  have "EmplaceBack T this x ?sf =
      (Inl ElementOperationFailure,
       ?sf\<lparr>faults := fs, heap := (heap ?sf)(brk ?sf := None), brk := Suc (brk ?sf)\<rparr>)"
    using v h full by (intro EmplaceBack_construction_fails [where xs = xs]) simp_all
  then have fail: "\<exists>s'. EmplaceBack T this x ?sf = (Inl ElementOperationFailure, s') \<and>
        PushBack T this x ?sf = (Inl ElementOperationFailure, s') \<and>
        vectors s' = vectors s \<and> holds s' v xs \<and>
        heap s' (buffer_m (data_m v)) = heap s (buffer_m (data_m v)) \<and> log s' = log s"
    using h b by (auto simp add: holds_def PushBack_def bindP_def)
  let ?s0 = "s\<lparr>faults := []\<rparr>"
  have v0: "vectors ?s0 this = Some v" and h0: "holds ?s0 v xs" and f0: "faults ?s0 = []"
    using v h by simp_all
  have ok: "\<exists>s' v'. EmplaceBack T this x ?s0 = (Inr (ptr_add (begin_ptr v') (size_m v)), s') \<and>
        PushBack T this x ?s0 = (Inr (), s') \<and>
        vectors s' this = Some v' \<and> holds s' v' (xs @ [x]) \<and>
        size_m v' = size_m v + 1 \<and>
        capacity_m (data_m v') = max 1 (2 * capacity_m (data_m v)) \<and>
        buffer_m (data_m v') = brk s \<and> heap s' (buffer_m (data_m v)) = None \<and>
        log s' = log s @ Construct # replicate (length xs) (migration T) @ replicate (length xs) Destroy"
    using EmplaceBack_reallocating [OF v0 h0 f0 full', of T x] b sz full'
    by (auto simp add: holds_def begin_ptr_def GetAddress_def ptr_add_def PushBack_def
        bindP_def ret_def)
  show ?thesis
    using fail ok unfolding migration_def moves_def by blast
qed

text \<open>
  The full vector \<open>[10, 20]\<close> satisfies the hypotheses; \<open>30\<close> is appended, by
  \<^verbatim>\<open>EmplaceBack\<close> and by \<^verbatim>\<open>PushBack\<close>.
\<close>

theorem EmplaceBack_reallocating_spec_witness:
  "vectors full_state 7 = Some full_vector \<and> holds full_state full_vector [10, 20] \<and>
   size_m full_vector = capacity_m (data_m full_vector) \<and>
   (\<exists>s'. EmplaceBack T_copied 7 30 (full_state\<lparr>faults := [False, True]\<rparr>) =
          (Inl ElementOperationFailure, s') \<and>
      PushBack T_copied 7 30 (full_state\<lparr>faults := [False, True]\<rparr>) =
          (Inl ElementOperationFailure, s') \<and>
      vectors s' = vectors full_state \<and> holds s' full_vector [10, 20] \<and>
      log s' = log full_state) \<and>
   (\<exists>s' v'. EmplaceBack T_copied 7 30 (full_state\<lparr>faults := []\<rparr>) =
          (Inr (ptr_add (begin_ptr v') 2), s') \<and>
      PushBack T_copied 7 30 (full_state\<lparr>faults := []\<rparr>) = (Inr (), s') \<and>
      vectors s' 7 = Some v' \<and> holds s' v' [10, 20, 30] \<and> size_m v' = 3 \<and>
      capacity_m (data_m v') = 4 \<and>
      log s' = [Construct, CopyConstruct, CopyConstruct, Destroy, Destroy])"
proof -
  have l: "log full_state = []" and z: "size_m full_vector = 2"
    and c: "capacity_m (data_m full_vector) = 2"
    by (simp_all add: full_state_def full_vector_def)
  from EmplaceBack_reallocating_spec [OF full_state_vector full_state_holds full_vector_full,
      where T = T_copied and x = 30 and fs = "[]"]
  show ?thesis
    using full_state_vector full_state_holds full_vector_full
    by (simp add: l z c T_copied_def) blast
qed

subsection \<open>The growth policy\<close>

text \<open>
  Claim C4. When nothing fails, \<^verbatim>\<open>PushBack\<close> and \<^verbatim>\<open>Emplace\<close> at any position leave the
  capacity at \<open>max 1 (2 * capacity)\<close> when the vector was full and unchanged
  otherwise, so the capacity never decreases. Pushing the values \<open>vs\<close>, at least one,
  into an empty default-constructed vector leaves it with a capacity that is a power
  of two, the least one that is at least the number of values: the capacities met
  are \<open>1, 2, 4, 8, ...\<close>. And whatever fails during a push, under any schedule
  \<open>fs\<close> of failures, the capacity after it is at least the capacity before.
\<close>

theorem growth_doubles:
  assumes v: "vectors s this = Some v" and h: "holds s v xs"
    and i: "i \<le> length xs" and f: "faults s = []"
    and e: "vectors s0 a = Some Vector_default" and h0: "holds s0 Vector_default []"
    and f0: "faults s0 = []" and vs: "vs \<noteq> []"
  shows
    "(\<exists>s' v'. PushBack T this x s = (Inr (), s') \<and> vectors s' this = Some v' \<and>
        capacity_m (data_m v') =
          (if size_m v = capacity_m (data_m v) then max 1 (2 * capacity_m (data_m v))
           else capacity_m (data_m v)) \<and>
        capacity_m (data_m v) \<le> capacity_m (data_m v')) \<and>
     (\<exists>s' v'. Emplace T this (ptr_add (begin_ptr v) i) x s = (Inr (ptr_add (begin_ptr v') i), s') \<and>
        vectors s' this = Some v' \<and>
        capacity_m (data_m v') =
          (if size_m v = capacity_m (data_m v) then max 1 (2 * capacity_m (data_m v))
           else capacity_m (data_m v)) \<and>
        capacity_m (data_m v) \<le> capacity_m (data_m v')) \<and>
     (\<exists>s' v' k. PushBack_all T a vs s0 = (Inr (), s') \<and> vectors s' a = Some v' \<and>
        size_m v' = length vs \<and> capacity_m (data_m v') = 2 ^ k \<and>
        length vs \<le> 2 ^ k \<and> 2 ^ k < 2 * length vs) \<and>
     (\<exists>v'. vectors (snd (PushBack T this x (s\<lparr>faults := fs\<rparr>))) this = Some v' \<and>
        capacity_m (data_m v) \<le> capacity_m (data_m v'))"
proof -
  note sz = holds_sizes [OF h]
  have "vectors (s\<lparr>faults := fs\<rparr>) this = Some v" using v by simp
  from EmplaceBack_capacity [OF this, of T x]
  have four: "\<exists>v'. vectors (snd (PushBack T this x (s\<lparr>faults := fs\<rparr>))) this = Some v' \<and>
        capacity_m (data_m v) \<le> capacity_m (data_m v')"
    by (simp add: PushBack_state)
  have one: "\<exists>s' v'. PushBack T this x s = (Inr (), s') \<and> vectors s' this = Some v' \<and>
        capacity_m (data_m v') =
          (if size_m v = capacity_m (data_m v) then max 1 (2 * capacity_m (data_m v))
           else capacity_m (data_m v)) \<and>
        capacity_m (data_m v) \<le> capacity_m (data_m v')"
    using EmplaceBack_holds [OF v h f, of T x] sz
    by (auto simp add: PushBack_def bindP_def ret_def)
  have two: "\<exists>s' v'. Emplace T this (ptr_add (begin_ptr v) i) x s = (Inr (ptr_add (begin_ptr v') i), s') \<and>
        vectors s' this = Some v' \<and>
        capacity_m (data_m v') =
          (if size_m v = capacity_m (data_m v) then max 1 (2 * capacity_m (data_m v))
           else capacity_m (data_m v)) \<and>
        capacity_m (data_m v) \<le> capacity_m (data_m v')"
    using Emplace_holds [OF v h f i, of T x] sz
    by (auto simp add: begin_ptr_def GetAddress_def ptr_add_def)
  have "[] = [] \<and> capacity_m (data_m Vector_default) = 0 \<or>
         (\<exists>k. capacity_m (data_m Vector_default) = 2 ^ k \<and> length ([] :: 'a list) \<le> 2 ^ k \<and>
              2 ^ k < 2 * length ([] :: 'a list))"
    by (simp add: Vector_default_def RawMemory_default_def)
  from PushBack_all_holds [OF e h0 f0 this, of T vs]
  have three: "\<exists>s' v' k. PushBack_all T a vs s0 = (Inr (), s') \<and> vectors s' a = Some v' \<and>
        size_m v' = length vs \<and> capacity_m (data_m v') = 2 ^ k \<and>
        length vs \<le> 2 ^ k \<and> 2 ^ k < 2 * length vs"
    using vs by (auto simp add: holds_def)
  show ?thesis using one two three four by blast
qed

text \<open>
  The full vector \<open>[10, 20]\<close> and the empty vector satisfy the hypotheses; three
  values are pushed into the empty vector, which ends with capacity \<open>4\<close>. The
  failing push is the one whose first copy of an old element throws.
\<close>

theorem growth_doubles_witness:
  "vectors full_state 7 = Some full_vector \<and> holds full_state full_vector [10, 20] \<and>
   1 \<le> length [10 :: nat, 20] \<and> faults full_state = [] \<and>
   vectors empty_state 7 = Some Vector_default \<and> holds empty_state Vector_default [] \<and>
   faults empty_state = [] \<and> [1 :: nat, 2, 3] \<noteq> [] \<and>
   (\<exists>s' v'. PushBack T_copied 7 30 full_state = (Inr (), s') \<and> vectors s' 7 = Some v' \<and>
      capacity_m (data_m v') = 4) \<and>
   (\<exists>s' v'. Emplace T_copied 7 (ptr_add (begin_ptr full_vector) 1) 30 full_state =
        (Inr (ptr_add (begin_ptr v') 1), s') \<and>
      vectors s' 7 = Some v' \<and> capacity_m (data_m v') = 4) \<and>
   (\<exists>s' v'. PushBack_all T_copied 7 [1, 2, 3] empty_state = (Inr (), s') \<and>
      vectors s' 7 = Some v' \<and> size_m v' = 3 \<and> capacity_m (data_m v') = 4) \<and>
   (\<exists>v'. vectors (snd (PushBack T_copied 7 30 first_copy_fails)) 7 = Some v' \<and>
      2 \<le> capacity_m (data_m v'))"
proof -
  have i: "1 \<le> length [10 :: nat, 20]" and n: "[1 :: nat, 2, 3] \<noteq> []" by simp_all
  have e: "vectors empty_state 7 = Some Vector_default" and f: "faults empty_state = []"
    by (simp_all add: empty_state_def)
  have z: "size_m full_vector = 2" and c: "capacity_m (data_m full_vector) = 2"
    by (simp_all add: full_vector_def)
  have p: "k = 2" if "(3 :: nat) \<le> 2 ^ k" "(2 :: nat) ^ k < 6" for k
  proof -
    have "k < 3"
    proof (rule ccontr)
      assume "\<not> k < 3"
      then have "(2 :: nat) ^ 3 \<le> 2 ^ k" by (intro power_increasing) simp_all
      then show False using that(2) by simp
    qed
    moreover have "k \<noteq> 0"
    proof
      assume "k = 0"
      with that(1) show False by simp
    qed
    moreover have "k \<noteq> 1"
    proof
      assume "k = 1"
      with that(1) show False by simp
    qed
    ultimately show ?thesis by arith
  qed
  note g = growth_doubles [OF full_state_vector full_state_holds i full_state_faults
      e empty_state_holds f n, where T = T_copied and x = 30 and fs = "[False, False, True]"]
  from g obtain v4 where four: "vectors (snd (PushBack T_copied 7 30 first_copy_fails)) 7 = Some v4"
      "2 \<le> capacity_m (data_m v4)"
    by (auto simp add: c first_copy_fails_def)
  from g obtain s1 v1 where one: "PushBack T_copied 7 30 full_state = (Inr (), s1)"
      "vectors s1 7 = Some v1" "capacity_m (data_m v1) = 4"
    by (auto simp add: z c)
  from g obtain s2 v2 where two:
      "Emplace T_copied 7 (ptr_add (begin_ptr full_vector) 1) 30 full_state =
         (Inr (ptr_add (begin_ptr v2) 1), s2)"
      "vectors s2 7 = Some v2" "capacity_m (data_m v2) = 4"
    by (auto simp add: z c)
  from g obtain s3 v3 k where three: "PushBack_all T_copied 7 [1, 2, 3] empty_state = (Inr (), s3)"
      "vectors s3 7 = Some v3" "size_m v3 = 3" "capacity_m (data_m v3) = 2 ^ k"
      "(3 :: nat) \<le> 2 ^ k" "(2 :: nat) ^ k < 6"
    by auto
  from p [OF three(5,6)] three(4) have "capacity_m (data_m v3) = 4" by simp
  with one two three(1-3) four show ?thesis
    using full_state_vector full_state_holds full_state_faults e empty_state_holds f
    by auto
qed

subsection \<open>The invariant\<close>

text \<open>
  Claim C5. Every operation is to preserve the invariant: the size is at most the
  capacity, the slots \<open>[0, size)\<close> are live objects and the slots \<open>[size, capacity)\<close>
  are raw memory.

  The reallocating \<^verbatim>\<open>Emplace\<close> does not. The vector \<open>[1, 2, 3]\<close> is full, its elements
  are copied on reallocation, and \<open>9\<close> is inserted before its last element; the copy
  of the first old element throws. The call returns normally and leaves a vector of
  size \<open>4\<close> and capacity \<open>6\<close> whose slots \<open>0\<close>, \<open>1\<close> and \<open>2\<close> are raw memory: the
  copies of the prefix were rolled back and the new element was destroyed by the
  handler, which does not rethrow.
\<close>

theorem Emplace_breaks_invariant:
  "fst (Emplace T_copied 7 (1, 2) 9 three_state) = Inr (2, 2) \<and>
   vectors (snd (Emplace T_copied 7 (1, 2) 9 three_state)) 7 =
     Some \<lparr>data_m = \<lparr>buffer_m = 2, capacity_m = 6\<rparr>, size_m = 4\<rparr> \<and>
   heap (snd (Emplace T_copied 7 (1, 2) 9 three_state)) 2 =
     Some [None, None, None, Some 3, None, None] \<and>
   \<not> Vector_invariant (snd (Emplace T_copied 7 (1, 2) 9 three_state))
        \<lparr>data_m = \<lparr>buffer_m = 2, capacity_m = 6\<rparr>, size_m = 4\<rparr>"
  by code_simp

subsection \<open>Insertion\<close>

text \<open>
  Claim C6. An \<^verbatim>\<open>Insert\<close> that returns is to have placed the value at the position,
  with all other elements in their former order, and the size incremented.

  \<^verbatim>\<open>Insert\<close> forwards to \<^verbatim>\<open>Emplace\<close>, whose reallocating branch swallows the
  failure of a migration, so it returns without having done so. The vector
  \<open>[1, 2, 3]\<close> is full, its elements are copied on reallocation, and \<open>9\<close> is inserted
  at index \<open>1\<close>; the copy of the first old element throws. The call returns the
  position \<open>1\<close> of the new buffer as if it had succeeded. The size is \<open>4\<close>, but the
  slot at the returned position is raw memory, where \<open>9\<close> was destroyed by the
  handler, and so is slot \<open>0\<close>: the element \<open>1\<close> is lost, and reading the returned
  position is an access to a dead object. The overload that moves the value into
  the vector returns in the same way.
\<close>

theorem Insert_returns_without_inserting:
  "fst (Insert T_copied 7 (1, 1) 9 three_state) = Inr (2, 1) \<and>
   vectors (snd (Insert T_copied 7 (1, 1) 9 three_state)) 7 =
     Some \<lparr>data_m = \<lparr>buffer_m = 2, capacity_m = 6\<rparr>, size_m = 4\<rparr> \<and>
   heap (snd (Insert T_copied 7 (1, 1) 9 three_state)) 2 =
     Some [None, None, Some 2, Some 3, None, None] \<and>
   fst (read_slot (2, 1) (snd (Insert T_copied 7 (1, 1) 9 three_state))) =
     Inl UndefinedBehaviour \<and>
   log (snd (Insert T_copied 7 (1, 1) 9 three_state)) =
     [CopyConstruct, Destroy, CopyConstruct, CopyConstruct, Destroy, Destroy, Destroy] \<and>
   fst (Insert_move T_copied 7 (1, 1) 9 three_state) = Inr (2, 1) \<and>
   vectors (snd (Insert_move T_copied 7 (1, 1) 9 three_state)) 7 =
     Some \<lparr>data_m = \<lparr>buffer_m = 2, capacity_m = 6\<rparr>, size_m = 4\<rparr> \<and>
   heap (snd (Insert_move T_copied 7 (1, 1) 9 three_state)) 2 =
     Some [None, None, Some 2, Some 3, None, None]"
  by code_simp

subsection \<open>Erasure\<close>

text \<open>
  Claim C7. Let the vector hold \<open>xs\<close> and let \<open>i < length xs\<close>. When nothing fails,
  \<^verbatim>\<open>Erase\<close> at position \<open>i\<close> returns position \<open>i\<close> of the same buffer, the vector then
  holds \<open>take i xs @ drop (Suc i) xs\<close> in the same storage, and its size is
  decremented. The log gives the work: one assignment for each element after
  position \<open>i\<close> (a move assignment when \<open>T\<close> has a non-throwing move constructor or
  cannot be copied, a copy assignment otherwise), then the destruction of the last
  slot.
\<close>

theorem Erase_spec:
  assumes v: "vectors s this = Some v" and h: "holds s v xs"
    and i: "i < length xs" and f: "faults s = []"
  shows "\<exists>s' v'. Erase T this (ptr_add (begin_ptr v) i) s = (Inr (ptr_add (begin_ptr v') i), s') \<and>
       vectors s' this = Some v' \<and> holds s' v' (take i xs @ drop (Suc i) xs) \<and>
       size_m v' = size_m v - 1 \<and> data_m v' = data_m v \<and>
       log s' = log s @ replicate (length xs - Suc i) (shifting T) @ [Destroy]"
proof -
  note b = holds_buffer [OF h] and sz = holds_sizes [OF h]
  have "capacity_m (data_m v) \<noteq> 0" using sz i by auto
  then show ?thesis
    using Erase_ok [OF v h f i, of T] b sz i h
    by (auto simp add: holds_def begin_ptr_def GetAddress_def ptr_add_def)
qed

text \<open>
  The vector \<open>[10, 20]\<close> satisfies the hypotheses; its first element is erased.
\<close>

theorem Erase_spec_witness:
  "vectors full_state 7 = Some full_vector \<and> holds full_state full_vector [10, 20] \<and>
   0 < length [10 :: nat, 20] \<and> faults full_state = [] \<and>
   (\<exists>s' v'. Erase T_moved 7 (ptr_add (begin_ptr full_vector) 0) full_state =
        (Inr (ptr_add (begin_ptr v') 0), s') \<and>
      vectors s' 7 = Some v' \<and> holds s' v' [20] \<and> size_m v' = 1 \<and>
      log s' = [MoveAssign, Destroy])"
proof -
  have i: "0 < length [10 :: nat, 20]" by simp
  have m: "shifting T_moved = MoveAssign"
    by (simp add: shifting_def moves_def T_moved_def)
  have l: "log full_state = []" and z: "size_m full_vector = 2"
    by (simp_all add: full_state_def full_vector_def)
  from Erase_spec [OF full_state_vector full_state_holds i full_state_faults, where T = T_moved]
  show ?thesis
    using full_state_vector full_state_holds full_state_faults
    by (simp add: m l z) blast
qed

subsection \<open>Copy assignment\<close>

text \<open>
  Claim C8. Let two distinct vector objects hold \<open>xs\<close> (the target) and \<open>ys\<close> (the
  source) in distinct buffers. When nothing fails, copy assignment returns the
  target, which then holds \<open>ys\<close>; the source is unchanged and still holds \<open>ys\<close>; the
  two buffers are distinct, and assigning a value to an element of either vector
  leaves the other one holding \<open>ys\<close>. When \<open>ys\<close> is longer than the capacity of the
  target, the target gets a fresh buffer of capacity \<open>length ys\<close> into which the
  elements are copy-constructed, and its old elements are destroyed and their buffer
  released. Otherwise the target keeps its storage: the common prefix is
  copy-assigned, and then the extra elements of the target are destroyed when the
  source is shorter, or the extra elements of the source are copy-constructed when
  it is longer.
\<close>

theorem Vector_copy_assign_spec:
  assumes ne: "this \<noteq> rhs" and v: "vectors s this = Some v" and r: "vectors s rhs = Some r"
    and hv: "holds s v xs" and hr: "holds s r ys"
    and sep: "buffer_m (data_m v) \<noteq> buffer_m (data_m r) \<or> capacity_m (data_m v) = 0"
    and f: "faults s = []"
  shows "\<exists>s' v'. Vector_copy_assign this rhs s = (Inr this, s') \<and>
      vectors s' this = Some v' \<and> vectors s' rhs = Some r \<and>
      holds s' v' ys \<and> holds s' r ys \<and>
      (buffer_m (data_m v') \<noteq> buffer_m (data_m r) \<or> capacity_m (data_m v') = 0) \<and>
      (\<forall>j z. j < length ys \<longrightarrow>
         holds (snd (T_move_assign_value (ptr_add (begin_ptr v') j) z s')) r ys \<and>
         holds (snd (T_move_assign_value (ptr_add (begin_ptr r) j) z s')) v' ys) \<and>
      (if capacity_m (data_m v) < length ys
       then buffer_m (data_m v') = brk s \<and> capacity_m (data_m v') = length ys \<and>
            heap s' (buffer_m (data_m v)) = None \<and>
            log s' = log s @ replicate (length ys) CopyConstruct @ replicate (length xs) Destroy
       else data_m v' = data_m v \<and>
            log s' = log s @
              (if length ys < length xs
               then replicate (length ys) CopyAssign @ replicate (length xs - length ys) Destroy
               else replicate (length xs) CopyAssign @
                    replicate (length ys - length xs) CopyConstruct))"
proof -
  note bv = holds_buffer [OF hv] and szv = holds_sizes [OF hv]
  note br = holds_buffer [OF hr] and szr = holds_sizes [OF hr]
  have main: "\<exists>s' v'. Vector_copy_assign this rhs s = (Inr this, s') \<and>
      vectors s' this = Some v' \<and> vectors s' rhs = Some r \<and>
      holds s' v' ys \<and> holds s' r ys \<and>
      (buffer_m (data_m v') \<noteq> buffer_m (data_m r) \<or> capacity_m (data_m v') = 0) \<and>
      (if capacity_m (data_m v) < length ys
       then buffer_m (data_m v') = brk s \<and> capacity_m (data_m v') = length ys \<and>
            heap s' (buffer_m (data_m v)) = None \<and>
            log s' = log s @ replicate (length ys) CopyConstruct @ replicate (length xs) Destroy
       else data_m v' = data_m v \<and>
            log s' = log s @
              (if length ys < length xs
               then replicate (length ys) CopyAssign @ replicate (length xs - length ys) Destroy
               else replicate (length xs) CopyAssign @
                    replicate (length ys - length xs) CopyConstruct))"
  proof (cases "capacity_m (data_m v) < length ys")
    case True
    then have "ys \<noteq> []" by auto
    then have cr: "capacity_m (data_m r) \<noteq> 0" using szr by (auto dest: nonempty_capacity)
    then have "buffer_m (data_m r) \<noteq> buffer_m (data_m v)"
      using sep hv hr by (auto simp add: holds_def split: if_splits)
    then show ?thesis
      using Vector_copy_assign_swap [OF ne v r hv hr f True] bv br ne r True hr cr
      by (auto simp add: holds_def)
  next
    case fits: False
    show ?thesis
    proof (cases "capacity_m (data_m v) = 0")
      case True
      then have "ys = []" using fits by simp
      then show ?thesis
        using Vector_copy_assign_empty [OF ne v r hv hr True] v r hv hr True fits szv
        by (auto simp add: holds_def)
    next
      case False
      then have sep': "buffer_m (data_m v) \<noteq> buffer_m (data_m r)" using sep by simp
      have le: "length ys \<le> capacity_m (data_m v)" using fits by simp
      show ?thesis
      proof (cases "length ys < length xs")
        case True
        show ?thesis
          using Vector_copy_assign_shrink [OF ne v r hv hr f sep' True] bv br ne r True hv hr
            sep' False fits le
          by (auto simp add: holds_def)
      next
        case False
        then have long: "length xs \<le> length ys" by simp
        show ?thesis
          using Vector_copy_assign_grow [OF ne v r hv hr f sep' long le \<open>capacity_m (data_m v) \<noteq> 0\<close>]
            bv br ne r False hv hr sep' \<open>capacity_m (data_m v) \<noteq> 0\<close> fits le
          by (auto simp add: holds_def)
      qed
    qed
  qed
  then obtain s' v' where res: "Vector_copy_assign this rhs s = (Inr this, s')"
    and tv: "vectors s' this = Some v'" and tr: "vectors s' rhs = Some r"
    and hv': "holds s' v' ys" and hr': "holds s' r ys"
    and sep'': "buffer_m (data_m v') \<noteq> buffer_m (data_m r) \<or> capacity_m (data_m v') = 0"
    and rest: "if capacity_m (data_m v) < length ys
       then buffer_m (data_m v') = brk s \<and> capacity_m (data_m v') = length ys \<and>
            heap s' (buffer_m (data_m v)) = None \<and>
            log s' = log s @ replicate (length ys) CopyConstruct @ replicate (length xs) Destroy
       else data_m v' = data_m v \<and>
            log s' = log s @
              (if length ys < length xs
               then replicate (length ys) CopyAssign @ replicate (length xs - length ys) Destroy
               else replicate (length xs) CopyAssign @
                    replicate (length ys - length xs) CopyConstruct)"
    by blast
  have frame: "holds (snd (T_move_assign_value (ptr_add (begin_ptr v') j) z s')) r ys \<and>
         holds (snd (T_move_assign_value (ptr_add (begin_ptr r) j) z s')) v' ys"
    if "j < length ys" for j z
  proof -
    have "capacity_m (data_m v') \<noteq> 0"
      using that holds_sizes [OF hv'] by auto
    then have d: "buffer_m (data_m v') \<noteq> buffer_m (data_m r)" using sep'' by simp
    show ?thesis
      using write_elsewhere [OF hr', of "ptr_add (begin_ptr v') j" z]
        write_elsewhere [OF hv', of "ptr_add (begin_ptr r) j" z] d
      by (simp add: ptr_add_def begin_ptr_def GetAddress_def)
  qed
  show ?thesis
    using res tv tr hv' hr' sep'' rest frame by blast
qed

text \<open>
  The two vectors \<open>[10, 20]\<close> (capacity \<open>4\<close>) and \<open>[1, 2, 3]\<close> satisfy the hypotheses;
  the assignment reuses the storage of the target.
\<close>

theorem Vector_copy_assign_spec_witness:
  "(7 :: nat) \<noteq> 8 \<and> vectors two_vectors 7 = Some roomy_vector \<and>
   vectors two_vectors 8 = Some other_vector \<and>
   holds two_vectors roomy_vector [10, 20] \<and> holds two_vectors other_vector [1, 2, 3] \<and>
   buffer_m (data_m roomy_vector) \<noteq> buffer_m (data_m other_vector) \<and>
   faults two_vectors = [] \<and>
   (\<exists>s' v'. Vector_copy_assign 7 8 two_vectors = (Inr 7, s') \<and>
      vectors s' 7 = Some v' \<and> vectors s' 8 = Some other_vector \<and>
      holds s' v' [1, 2, 3] \<and> holds s' other_vector [1, 2, 3] \<and>
      buffer_m (data_m v') \<noteq> buffer_m (data_m other_vector) \<and>
      data_m v' = data_m roomy_vector \<and>
      log s' = [CopyAssign, CopyAssign, CopyConstruct])"
proof -
  have ne: "(7 :: nat) \<noteq> 8" by simp
  have a: "vectors two_vectors 7 = Some roomy_vector"
    and b: "vectors two_vectors 8 = Some other_vector"
    and f: "faults two_vectors = []" and l: "log two_vectors = []"
    by (simp_all add: two_vectors_def)
  have d: "buffer_m (data_m roomy_vector) \<noteq> buffer_m (data_m other_vector)"
    and c: "capacity_m (data_m roomy_vector) = 4"
    by (simp_all add: roomy_vector_def other_vector_def)
  then have sep: "buffer_m (data_m roomy_vector) \<noteq> buffer_m (data_m other_vector) \<or>
      capacity_m (data_m roomy_vector) = 0" by simp
  from Vector_copy_assign_spec [OF ne a b two_vectors_holds sep f]
  obtain s' v' where "Vector_copy_assign 7 8 two_vectors = (Inr 7, s')"
      "vectors s' 7 = Some v'" "vectors s' 8 = Some other_vector"
      "holds s' v' [1, 2, 3]" "holds s' other_vector [1, 2, 3]"
      "buffer_m (data_m v') \<noteq> buffer_m (data_m other_vector) \<or> capacity_m (data_m v') = 0"
      "data_m v' = data_m roomy_vector"
      "log s' = [CopyAssign, CopyAssign, CopyConstruct]"
    by (auto simp add: c l)
  then show ?thesis
    using ne a b two_vectors_holds d f c by auto
qed

subsection \<open>Reserve\<close>

text \<open>
  Claim C9. \<^verbatim>\<open>Reserve\<close> of more than the capacity is to allocate exactly the
  requested number of slots, and to leave the size and the elements unchanged.

  \<^verbatim>\<open>Allocate\<close> multiplies the request by \<^verbatim>\<open>sizeof(T)\<close> without a check, and
  \<^verbatim>\<open>Reserve\<close> passes it any request. For a \<^verbatim>\<open>Vector<int>\<close> where \<^verbatim>\<open>size_t\<close> has
  64 bits, the request \<open>2 ^ 62\<close> makes a byte count of \<open>2 ^ 64\<close>, which wraps around
  to \<open>0\<close>: \<^verbatim>\<open>operator new\<close> returns an allocation without room for any object. On
  the empty vector \<^verbatim>\<open>Reserve\<close> returns, and the vector has capacity \<open>2 ^ 62\<close> over a
  buffer of no slot, so the invariant is broken. On the vector \<open>[10, 20]\<close> the first
  element is migrated to a slot outside the allocation.
\<close>

theorem Reserve_byte_count_wraps:
  "fst (Reserve int_64 T_int 7 (2 ^ 62) int_empty_state) = Inr () \<and>
   vectors (snd (Reserve int_64 T_int 7 (2 ^ 62) int_empty_state)) 7 =
     Some \<lparr>data_m = \<lparr>buffer_m = 1, capacity_m = 2 ^ 62\<rparr>, size_m = 0\<rparr> \<and>
   heap (snd (Reserve int_64 T_int 7 (2 ^ 62) int_empty_state)) 1 = Some [] \<and>
   \<not> Vector_invariant (snd (Reserve int_64 T_int 7 (2 ^ 62) int_empty_state))
        \<lparr>data_m = \<lparr>buffer_m = 1, capacity_m = 2 ^ 62\<rparr>, size_m = 0\<rparr> \<and>
   fst (Reserve int_64 T_int 7 (2 ^ 62) int_full_state) = Inl UndefinedBehaviour"
  by (simp add: Reserve_def with_RawMemory_on_def RawMemory_ctor_on_def Allocate_on_def
      int_64_def T_int_def int_empty_state_def int_full_state_def full_vector_def
      Vector_default_def RawMemory_default_def Vector_invariant_def
      bindP_def ret_def raise_def get_vector_def put_vector_def may_throw_def
      Deallocate_def GetAddress_def is_exception_def try_catch_def
      uninitialized_move_n_def uninitialized_loop_numeral move_construct_def
      read_slot_def write_slot_def ptr_add_def)

text \<open>
  When the byte count does not wrap around, \<^verbatim>\<open>Reserve\<close> does what the claim says. Let
  the vector hold \<open>xs\<close>. \<^verbatim>\<open>Reserve\<close> of at most the capacity returns with the whole
  state unchanged, whatever the schedule of failures. \<^verbatim>\<open>Reserve\<close> of \<open>n\<close> above the
  capacity, when nothing fails and \<open>n * sizeof(T)\<close> is at most \<^verbatim>\<open>SIZE_MAX\<close>, leaves the
  vector with the same size and the same elements \<open>xs\<close> in a fresh buffer of exactly
  \<open>n\<close> slots; the old elements were migrated (moved or copied, by the traits of \<open>T\<close>),
  then destroyed, and the old buffer is released.
\<close>

lemma Reserve_within_size_t:
  assumes v: "vectors s this = Some v" and h: "holds s v xs"
    and small: "k \<le> capacity_m (data_m v)" and large: "capacity_m (data_m v) < n"
    and fits: "0 < sizeof_T" "n * sizeof_T \<le> size_max"
  shows "Reserve ar T this k s = (Inr (), s) \<and>
    (\<exists>s' v'. Reserve (Size_t size_max sizeof_T) T this n (s\<lparr>faults := []\<rparr>) = (Inr (), s') \<and>
       vectors s' this = Some v' \<and> holds s' v' xs \<and>
       size_m v' = size_m v \<and> capacity_m (data_m v') = n \<and>
       buffer_m (data_m v') = brk s \<and> heap s' (buffer_m (data_m v)) = None \<and>
       log s' = log s @ replicate (length xs) (migration T) @ replicate (length xs) Destroy)"
proof -
  let ?s0 = "s\<lparr>faults := []\<rparr>"
  have v0: "vectors ?s0 this = Some v" and h0: "holds ?s0 v xs" and f0: "faults ?s0 = []"
    using v h by simp_all
  note b = holds_buffer [OF h] and sz = holds_sizes [OF h]
  note so = slots_obtained_fits [OF fits]
  have "n \<noteq> 0" using large by simp
  then show ?thesis
    using Reserve_noop [OF v small, of ar T] Reserve_reallocating [OF v0 h0 f0 large so, of T]
      b sz large
    by (auto simp add: holds_def)
qed

subsection \<open>Self-assignment\<close>

text \<open>
  Claim C10. Assigning a vector to itself, by copy or by move, returns the vector
  and leaves the whole state unchanged: no element operation, no allocation.
\<close>

theorem self_assignment_unchanged:
  "Vector_copy_assign this this s = (Inr this, s) \<and> Vector_move_assign this this s = (Inr this, s)"
  by (simp add: Vector_copy_assign_def Vector_move_assign_def ret_def)

end
